theory Spec2Isabelle
  imports Complex_Main "HOL-Library.AList"
begin

section \<open>Data model of profiler.common.js\<close>

text \<open>
  The objects handled by \<^verbatim>\<open>profiler.common.js\<close>, one record per object shape.
  Node indices are positions in the snapshot's node array (\<open>nat\<close>), ids and names are
  strings, distances and retained sizes are integers (the source converts them with
  \<^verbatim>\<open>Number(...)\<close> before comparing). A field that an object does not have yet
  (\<^verbatim>\<open>undefined\<close>) is \<open>None\<close>.
\<close>

record Child =
  c_index :: nat
  c_name_or_index :: string

record NodeDetail =
  nd_index :: nat
  nd_id :: string
  nd_name :: string
  nd_distance :: int
  nd_retainedSize :: int
  nd_children :: "Child list"

record LeakPoint =
  lp_index :: nat
  lp_fields :: "(string \<times> string) list"

record GraphNode =
  gn_index :: nat
  gn_name :: string
  gn_isMain :: "bool option"
  gn_id :: string
  gn_size :: nat
  gn_category :: nat
  gn_ignore :: bool
  gn_flag :: bool
  gn_label :: "string option"
  gn_symbolSize :: "nat option"

record GraphLink =
  gl_source :: string
  gl_target :: string
  gl_sourceIndex :: nat
  gl_targetIndex :: nat
  gl_name_or_index :: string

record ForceGraph =
  fg_nodes :: "GraphNode list"
  fg_links :: "GraphLink list"
  fg_index :: "nat option"

section \<open>catchNode and findNode\<close>

text \<open>
  \<^verbatim>\<open>catchNode(nodes, key, value)\<close> is the first element whose field equals the value,
  or \<^verbatim>\<open>undefined\<close>. \<^verbatim>\<open>findNode(arraySource, type, value, cb)\<close> runs the callback
  on every element whose field equals the value; the callbacks of this file assign
  fields of the element, so the model maps the assignment over the array.
\<close>

definition catchNode :: "GraphNode list \<Rightarrow> (GraphNode \<Rightarrow> 'a) \<Rightarrow> 'a \<Rightarrow> GraphNode option" where
  "catchNode nodes key v = (case filter (\<lambda>item. key item = v) nodes of [] \<Rightarrow> None | x # _ \<Rightarrow> Some x)"

definition findNode ::
  "GraphNode list \<Rightarrow> (GraphNode \<Rightarrow> 'a) \<Rightarrow> 'a \<Rightarrow> (GraphNode \<Rightarrow> GraphNode) \<Rightarrow> GraphNode list" where
  "findNode arraySource type v cb = map (\<lambda>item. if type item = v then cb item else item) arraySource"

section \<open>setExpandOff: the expand / collapse toggle\<close>

text \<open>
  The three assignments made by the callbacks of \<^verbatim>\<open>setExpandOff\<close>.
\<close>

definition reveal :: "GraphNode \<Rightarrow> GraphNode" where
  "reveal node = node\<lparr>gn_ignore := False, gn_flag := True\<rparr>"

definition mark_expanded :: "GraphNode \<Rightarrow> GraphNode" where
  "mark_expanded node = node\<lparr>gn_ignore := False, gn_flag := False, gn_category := 0\<rparr>"

definition hide :: "GraphNode \<Rightarrow> GraphNode" where
  "hide node = node\<lparr>gn_ignore := True, gn_flag := True\<rparr>"

definition mark_collapsed :: "GraphNode \<Rightarrow> GraphNode" where
  "mark_collapsed node = node\<lparr>gn_ignore := True, gn_flag := True, gn_category := 1\<rparr>"

text \<open>
  Expand branch, first loop: the targets of the links whose source is \<open>data.id\<close>, in
  link order.
\<close>

definition expand_linksNodes :: "GraphLink list \<Rightarrow> string \<Rightarrow> string list" where
  "expand_linksNodes linksOption a = map gl_target (filter (\<lambda>l. gl_source l = a) linksOption)"

text \<open>
  Collapse branch, first loop. It is one pass over the links in array order. For the link
  at hand the target is appended when the source is \<open>data.id\<close>; then the inner
  \<^verbatim>\<open>for (let n in linksNodes)\<close> runs over the entries that \<open>linksNodes\<close> holds when
  that inner loop starts (a \<^verbatim>\<open>for-in\<close> of V8 enumerates the keys present at its start;
  the entries pushed meanwhile are not visited) and appends the target once for every
  entry equal to the link's source, unless the target is \<open>data.id\<close>.
\<close>

fun collapse_linksNodes :: "GraphLink list \<Rightarrow> string \<Rightarrow> string list \<Rightarrow> string list" where
  "collapse_linksNodes [] a linksNodes = linksNodes"
| "collapse_linksNodes (l # ls) a linksNodes =
     (let linksNodes1 = (if gl_source l = a then linksNodes @ [gl_target l] else linksNodes);
          pushed = map (\<lambda>n. gl_target l)
                     (filter (\<lambda>n. gl_source l = n \<and> gl_target l \<noteq> a) linksNodes1)
      in collapse_linksNodes ls a (linksNodes1 @ pushed))"

text \<open>
  The second loop of either branch: \<^verbatim>\<open>findNode\<close> by id for every collected id, in order.
\<close>

definition apply_linksNodes ::
  "GraphNode list \<Rightarrow> string list \<Rightarrow> (GraphNode \<Rightarrow> GraphNode) \<Rightarrow> GraphNode list" where
  "apply_linksNodes nodesOption linksNodes cb =
     foldl (\<lambda>ns t. findNode ns gn_id t cb) nodesOption linksNodes"

text \<open>
  \<^verbatim>\<open>setExpandOff(forceGraph, data)\<close> reads \<open>data.flag\<close> once and \<open>data.id\<close>, and
  mutates the nodes of the graph it finds by id; the model returns the graph after the
  mutation. The links are never written.
\<close>

definition setExpandOff :: "ForceGraph \<Rightarrow> GraphNode \<Rightarrow> ForceGraph" where
  "setExpandOff forceGraph data =
     (let nodesOption = fg_nodes forceGraph; linksOption = fg_links forceGraph in
      if gn_flag data then
        (let linksNodes = expand_linksNodes linksOption (gn_id data);
             nodes1 = apply_linksNodes nodesOption linksNodes reveal
         in forceGraph\<lparr>fg_nodes := findNode nodes1 gn_id (gn_id data) mark_expanded\<rparr>)
      else
        (let linksNodes = collapse_linksNodes linksOption (gn_id data) [];
             nodes1 = apply_linksNodes nodesOption linksNodes hide
         in forceGraph\<lparr>fg_nodes := findNode nodes1 gn_id (gn_id data) mark_collapsed\<rparr>))"

section \<open>serializeNode: the memoizing accessor\<close>

text \<open>
  \<^verbatim>\<open>serializeNode(jsHeapSnapShot, limit)\<close> creates an empty \<open>_cache\<close> and returns a closure
  over it. The closure's state is the cache; the model adds the log of the indices that
  \<^verbatim>\<open>analysisLib.serialize\<close> was invoked with, so that a call of the primitive is
  observable. The primitive belongs to another package: it is a parameter, and it may
  depend on the invocations made so far (it need not be a pure function of the index).
  It returns an object, which is truthy, so \<^verbatim>\<open>if (cache)\<close> holds exactly when the
  index has an entry.
\<close>

record SerializeState =
  ss_cache :: "nat \<rightharpoonup> NodeDetail"
  ss_invoked :: "nat list"

definition serializeNode :: SerializeState where
  "serializeNode = \<lparr>ss_cache = Map.empty, ss_invoked = []\<rparr>"

definition serialize_call ::
  "(nat list \<Rightarrow> nat \<Rightarrow> NodeDetail) \<Rightarrow> nat \<Rightarrow> SerializeState \<Rightarrow> NodeDetail \<times> SerializeState" where
  "serialize_call analysis_serialize index s =
     (case ss_cache s index of
        Some cache \<Rightarrow> (cache, s)
      | None \<Rightarrow>
          (let cache = analysis_serialize (ss_invoked s) index
           in (cache, s\<lparr>ss_cache := (ss_cache s)(index \<mapsto> cache),
                        ss_invoked := ss_invoked s @ [index]\<rparr>)))"

text \<open>Any further calls of the accessor, in order.\<close>

definition serialize_calls ::
  "(nat list \<Rightarrow> nat \<Rightarrow> NodeDetail) \<Rightarrow> nat list \<Rightarrow> SerializeState \<Rightarrow> SerializeState" where
  "serialize_calls analysis_serialize indexes s =
     foldl (\<lambda>s index. snd (serialize_call analysis_serialize index s)) s indexes"

section \<open>createForceGraph\<close>

text \<open>
  The three tunables read from \<^verbatim>\<open>config.profiler.mem.optional\<close>.
\<close>

record ProfilerConfig =
  distance_limit :: int
  node_limit :: int
  leak_limit :: int

record BiggestEntry =
  be_id :: string
  be_source :: "nat option"
  be_sourceId :: "string option"
  be_distance :: "int option"
  be_retainedSize :: int

text \<open>
  The quotients of line 122 are JavaScript numbers. The model keeps a finite quotient
  exact (a rational) and writes out what a division by zero gives: an infinity, or NaN
  for \<open>0 / 0\<close>; a comparison with NaN is false.
\<close>

datatype jsnum = Fin rat | PInf | NInf | NaN

definition js_div :: "int \<Rightarrow> int \<Rightarrow> jsnum" where
  "js_div a b =
     (if b = 0 then (if a = 0 then NaN else if 0 < a then PInf else NInf)
      else Fin (of_int a / of_int b))"

fun js_gt :: "jsnum \<Rightarrow> jsnum \<Rightarrow> bool" where
  "js_gt NaN y = False"
| "js_gt x NaN = False"
| "js_gt NInf y = False"
| "js_gt PInf PInf = False"
| "js_gt PInf y = True"
| "js_gt (Fin x) PInf = False"
| "js_gt (Fin x) NInf = True"
| "js_gt (Fin x) (Fin y) = (y < x)"

text \<open>
  The state of one leak point's traversal: the graph under construction,
  \<open>biggestList\<close> (an object keyed by index: an association list, written with
  \<open>AList.update\<close>), \<open>isRecorded\<close> (the ids set to true) and the \<open>tmpIndexArr\<close> of the
  running iteration of the while loop.
  Both objects are read by key only; an id is taken not to be the name of a property
  that every object inherits.
\<close>

record Traversal =
  tr_nodes :: "GraphNode list"
  tr_links :: "GraphLink list"
  tr_biggestList :: "(nat \<times> BiggestEntry) list"
  tr_isRecorded :: "string set"
  tr_tmpIndexArr :: "nat list"

text \<open>The condition of line 122.\<close>

definition biggest_eligible ::
  "ProfilerConfig \<Rightarrow> int \<Rightarrow> (nat \<times> BiggestEntry) list \<Rightarrow> NodeDetail \<Rightarrow> NodeDetail \<Rightarrow> bool" where
  "biggest_eligible config rootDistance biggestList nodeDetail childDetail =
     (\<bar>rootDistance - nd_distance childDetail\<bar> < leak_limit config \<and>
      (case map_of biggestList (nd_index nodeDetail) of
         None \<Rightarrow> False
       | Some parent \<Rightarrow>
           js_gt (js_div (nd_retainedSize childDetail) (be_retainedSize parent))
                 (js_div 1 (node_limit config))))"

text \<open>
  The body of \<^verbatim>\<open>children.forEach\<close> (lines 113 to 152). On the last hop a child that is
  already recorded returns before the link is pushed.
\<close>

definition visit_child ::
  "ProfilerConfig \<Rightarrow> (nat \<Rightarrow> NodeDetail) \<Rightarrow> int \<Rightarrow> int \<Rightarrow> NodeDetail \<Rightarrow> Traversal \<Rightarrow> Child \<Rightarrow> Traversal" where
  "visit_child config serialize rootDistance distanceDisplay nodeDetail st child =
     (let cIndex = c_index child;
          childDetail = serialize cIndex;
          st1 = (if nd_id childDetail \<notin> tr_isRecorded st
                 then st\<lparr>tr_tmpIndexArr := tr_tmpIndexArr st @ [cIndex]\<rparr> else st);
          st2 = (if biggest_eligible config rootDistance (tr_biggestList st1) nodeDetail childDetail
                 then st1\<lparr>tr_biggestList :=
                        AList.update cIndex
                          \<lparr>be_id = nd_id childDetail, be_source = Some (nd_index nodeDetail),
                           be_sourceId = Some (nd_id nodeDetail),
                           be_distance = Some (nd_distance childDetail),
                           be_retainedSize = nd_retainedSize childDetail\<rparr>
                          (tr_biggestList st1)\<rparr>
                 else st1);
          link = \<lparr>gl_source = nd_id nodeDetail, gl_target = nd_id childDetail,
                  gl_sourceIndex = nd_index nodeDetail, gl_targetIndex = nd_index childDetail,
                  gl_name_or_index = c_name_or_index child\<rparr>
      in if distanceDisplay = distance_limit config then
           (if nd_id childDetail \<in> tr_isRecorded st2 then st2
            else st2\<lparr>tr_isRecorded := insert (nd_id childDetail) (tr_isRecorded st2),
                     tr_nodes := tr_nodes st2 @
                       [\<lparr>gn_index = nd_index childDetail, gn_name = nd_id childDetail,
                         gn_isMain = None, gn_id = nd_id childDetail, gn_size = 30,
                         gn_category = 1, gn_ignore = (distanceDisplay \<noteq> 2), gn_flag = True,
                         gn_label = None, gn_symbolSize = None\<rparr>],
                     tr_links := tr_links st2 @ [link]\<rparr>)
         else st2\<lparr>tr_links := tr_links st2 @ [link]\<rparr>)"

text \<open>
  The body of \<^verbatim>\<open>leakIndexList.forEach\<close> (lines 77 to 153): the children are filtered by
  distance, a recorded node returns at once, otherwise its node is pushed and its
  children are visited.
\<close>

definition visit_parent ::
  "ProfilerConfig \<Rightarrow> (nat \<Rightarrow> NodeDetail) \<Rightarrow> LeakPoint \<Rightarrow> int \<Rightarrow> int \<Rightarrow> Traversal \<Rightarrow> nat \<Rightarrow> Traversal" where
  "visit_parent config serialize leak rootDistance distanceDisplay st index =
     (let nodeDetail = serialize index;
          children = filter (\<lambda>item. nd_distance (serialize (c_index item)) = 1 + nd_distance nodeDetail)
                       (nd_children nodeDetail)
      in if nd_id nodeDetail \<in> tr_isRecorded st then st
         else
           (let isMain = (lp_index leak = nd_index nodeDetail);
                st1 = st\<lparr>tr_isRecorded := insert (nd_id nodeDetail) (tr_isRecorded st),
                         tr_nodes := tr_nodes st @
                           [\<lparr>gn_index = nd_index nodeDetail, gn_name = nd_id nodeDetail,
                             gn_isMain = Some isMain, gn_id = nd_id nodeDetail,
                             gn_size = (if isMain then 40 else 30),
                             gn_category = (if isMain then 0 else 1),
                             gn_ignore = (\<not> isMain), gn_flag = True,
                             gn_label = None, gn_symbolSize = None\<rparr>]\<rparr>
            in foldl (visit_child config serialize rootDistance distanceDisplay nodeDetail) st1 children))"

text \<open>
  The while loop of line 75. Every iteration increments \<open>distanceDisplay\<close>, so the loop
  ends once the counter passes \<open>distance_limit\<close>.
\<close>

function bfs_while ::
  "ProfilerConfig \<Rightarrow> (nat \<Rightarrow> NodeDetail) \<Rightarrow> LeakPoint \<Rightarrow> int \<Rightarrow> nat list \<Rightarrow> int \<Rightarrow> Traversal \<Rightarrow> Traversal" where
  "bfs_while config serialize leak rootDistance leakIndexList distanceDisplay st =
     (if leakIndexList \<noteq> [] \<and> distanceDisplay \<le> distance_limit config then
        (let st' = foldl (visit_parent config serialize leak rootDistance distanceDisplay)
                     (st\<lparr>tr_tmpIndexArr := []\<rparr>) leakIndexList
         in bfs_while config serialize leak rootDistance (tr_tmpIndexArr st') (distanceDisplay + 1) st')
      else st)"
  by pat_completeness auto
termination
  by (relation "measure (\<lambda>(config, serialize, leak, rootDistance, leakIndexList, distanceDisplay, st).
        nat (distance_limit config + 1 - distanceDisplay))") auto

declare bfs_while.simps [simp del]

text \<open>Lines 62 to 157: the state before the loop, and the loop.\<close>

definition traverse :: "ProfilerConfig \<Rightarrow> (nat \<Rightarrow> NodeDetail) \<Rightarrow> LeakPoint \<Rightarrow> Traversal" where
  "traverse config serialize leak =
     bfs_while config serialize leak (nd_distance (serialize (lp_index leak))) [lp_index leak] 1
       \<lparr>tr_nodes = [], tr_links = [],
        tr_biggestList =
          [(lp_index leak,
            \<lparr>be_id = nd_id (serialize (lp_index leak)), be_source = None, be_sourceId = None,
             be_distance = None,
             be_retainedSize = nd_retainedSize (serialize (lp_index leak))\<rparr>)],
        tr_isRecorded = {}, tr_tmpIndexArr = []\<rparr>"

text \<open>
  \<^verbatim>\<open>Object.keys(biggestList)\<close>: the keys are node indices, which an object enumerates
  in ascending numeric order.
\<close>

definition object_keys :: "(nat \<times> BiggestEntry) list \<Rightarrow> nat list" where
  "object_keys biggestList = sort (map fst biggestList)"

text \<open>Lines 163 to 168: the toggle of every biggest retainer that has a node.\<close>

definition expand_biggest :: "ForceGraph \<Rightarrow> nat list \<Rightarrow> ForceGraph" where
  "expand_biggest forceGraph keys =
     foldl (\<lambda>fg index. case catchNode (fg_nodes fg) gn_index index of
                          None \<Rightarrow> fg
                        | Some data \<Rightarrow> setExpandOff fg data) forceGraph keys"

text \<open>Lines 62 to 175: the graph of one leak point.\<close>

definition leak_graph :: "ProfilerConfig \<Rightarrow> (nat \<Rightarrow> NodeDetail) \<Rightarrow> LeakPoint \<Rightarrow> ForceGraph" where
  "leak_graph config serialize leak =
     (let st = traverse config serialize leak;
          forceGraph = \<lparr>fg_nodes = tr_nodes st, fg_links = tr_links st, fg_index = None\<rparr>;
          forceGraph1 = expand_biggest forceGraph (object_keys (tr_biggestList st));
          forceGraph2 = forceGraph1\<lparr>fg_nodes :=
                          map (\<lambda>node. node\<lparr>gn_label := Some (gn_name node),
                                            gn_symbolSize := Some (gn_size node)\<rparr>)
                            (fg_nodes forceGraph1)\<rparr>
      in forceGraph2\<lparr>fg_index := Some (lp_index leak)\<rparr>)"

text \<open>
  One iteration of the outer \<^verbatim>\<open>for\<close> loop: \<open>heapUsed\<close> receives the detail of every
  collected node (lines 159 to 161; the toggles do not change a node's index), and the
  graph is stored under \<^verbatim>\<open>name::id\<close> of the leak point's detail.
\<close>

definition leak_iteration ::
  "ProfilerConfig \<Rightarrow> (nat \<Rightarrow> NodeDetail) \<Rightarrow>
   (nat \<rightharpoonup> NodeDetail) \<times> (string \<rightharpoonup> ForceGraph) \<Rightarrow> LeakPoint \<Rightarrow>
   (nat \<rightharpoonup> NodeDetail) \<times> (string \<rightharpoonup> ForceGraph)" where
  "leak_iteration config serialize acc leak =
     (let heapUsed = fst acc; forceGraphAll = snd acc;
          heapUsed' = foldl (\<lambda>h item. h(gn_index item \<mapsto> serialize (gn_index item))) heapUsed
                        (tr_nodes (traverse config serialize leak));
          leakDetailTmp = serialize (lp_index leak)
      in (heapUsed',
          forceGraphAll(nd_name leakDetailTmp @ ''::'' @ nd_id leakDetailTmp
                          \<mapsto> leak_graph config serialize leak)))"

definition createForceGraph ::
  "ProfilerConfig \<Rightarrow> (nat \<rightharpoonup> NodeDetail) \<Rightarrow> (nat \<Rightarrow> NodeDetail) \<Rightarrow> LeakPoint list \<Rightarrow>
   (nat \<rightharpoonup> NodeDetail) \<times> (string \<rightharpoonup> ForceGraph)" where
  "createForceGraph config heapUsed serialize leakPoint =
     foldl (leak_iteration config serialize) (heapUsed, Map.empty) leakPoint"

section \<open>memCalculator and the memory branch of analyticsP\<close>

definition memCalculator ::
  "ProfilerConfig \<Rightarrow> (nat \<rightharpoonup> NodeDetail) \<Rightarrow> (nat \<Rightarrow> NodeDetail) \<Rightarrow> LeakPoint list \<Rightarrow> nat \<Rightarrow>
   ((nat \<rightharpoonup> NodeDetail) \<times> (string \<rightharpoonup> ForceGraph)) \<times> LeakPoint list" where
  "memCalculator config heapUsed serialize leakPoint rootIndex =
     (let forceGraph = createForceGraph config heapUsed serialize leakPoint;
          searchList = [\<lparr>lp_index = rootIndex, lp_fields = []\<rparr>] @ leakPoint
      in (forceGraph, searchList))"

record ('s, 'a) MemResult =
  r_heapUsed :: "nat \<rightharpoonup> NodeDetail"
  r_leakPoint :: "LeakPoint list"
  r_statistics :: 's
  r_rootIndex :: nat
  r_aggregates :: 'a
  r_forceGraph :: "string \<rightharpoonup> ForceGraph"
  r_searchList :: "nat list"

text \<open>
  Lines 360 to 399, from the resolved \<^verbatim>\<open>memAnalytics\<close> on. The statistics and the
  aggregates are passed through untouched.
\<close>

definition analytics_mem ::
  "ProfilerConfig \<Rightarrow> (nat \<Rightarrow> NodeDetail) \<Rightarrow> LeakPoint list \<Rightarrow> nat \<Rightarrow> 's \<Rightarrow> 'a \<Rightarrow> ('s, 'a) MemResult" where
  "analytics_mem config serialize leakPoint rootIndex statistics aggregates =
     (let heapUsed0 = foldl (\<lambda>pre next. pre(lp_index next \<mapsto> serialize (lp_index next)))
                        Map.empty leakPoint;
          heapUsed1 = heapUsed0(rootIndex \<mapsto> serialize rootIndex);
          mem_data = memCalculator config heapUsed1 serialize leakPoint rootIndex;
          searchList = map lp_index (snd mem_data)
      in \<lparr>r_heapUsed = fst (fst mem_data), r_leakPoint = leakPoint, r_statistics = statistics,
          r_rootIndex = rootIndex, r_aggregates = aggregates,
          r_forceGraph = snd (fst mem_data), r_searchList = searchList\<rparr>)"

section \<open>Notions used by the statements\<close>

text \<open>
  The links as a relation on ids, without the edges that point at \<open>a\<close>, and the ids
  reachable from \<open>a\<close> through its transitive closure.
\<close>

definition link_edges :: "GraphLink list \<Rightarrow> string \<Rightarrow> (string \<times> string) set" where
  "link_edges links a =
     set (map (\<lambda>l. (gl_source l, gl_target l)) (filter (\<lambda>l. gl_target l \<noteq> a) links))"

definition descendants :: "GraphLink list \<Rightarrow> string \<Rightarrow> string set" where
  "descendants links a = (link_edges links a)\<^sup>+ `` {a}"

text \<open>
  A link list is ordered when no link enters the source of a link that stands at the same
  or an earlier position: every link into an id precedes every link out of it.
\<close>

fun links_ordered :: "GraphLink list \<Rightarrow> bool" where
  "links_ordered [] = True"
| "links_ordered (l # ls) =
     (gl_target l \<noteq> gl_source l \<and> list_all (\<lambda>m. gl_target m \<noteq> gl_source l) ls \<and> links_ordered ls)"

text \<open>Small graphs on which the toggle is evaluated.\<close>

definition toggle_node :: "nat \<Rightarrow> string \<Rightarrow> nat \<Rightarrow> bool \<Rightarrow> bool \<Rightarrow> GraphNode" where
  "toggle_node i a category ignore flag =
     \<lparr>gn_index = i, gn_name = a, gn_isMain = None, gn_id = a, gn_size = 30,
      gn_category = category, gn_ignore = ignore, gn_flag = flag,
      gn_label = Some a, gn_symbolSize = Some 30\<rparr>"

definition toggle_link :: "string \<Rightarrow> nat \<Rightarrow> string \<Rightarrow> nat \<Rightarrow> GraphLink" where
  "toggle_link a i b j =
     \<lparr>gl_source = a, gl_target = b, gl_sourceIndex = i, gl_targetIndex = j,
      gl_name_or_index = ''x''\<rparr>"

definition chain_graph :: "bool \<Rightarrow> ForceGraph" where
  "chain_graph flag =
     \<lparr>fg_nodes = [toggle_node 1 ''a'' 0 False flag, toggle_node 2 ''b'' 1 False True,
                  toggle_node 3 ''c'' 1 False True],
      fg_links = [toggle_link ''a'' 1 ''b'' 2, toggle_link ''b'' 2 ''c'' 3],
      fg_index = Some 1\<rparr>"

definition unordered_graph :: ForceGraph where
  "unordered_graph =
     \<lparr>fg_nodes = [toggle_node 1 ''a'' 0 False False, toggle_node 2 ''b'' 0 False False,
                  toggle_node 3 ''c'' 1 False True],
      fg_links = [toggle_link ''b'' 2 ''c'' 3, toggle_link ''a'' 1 ''b'' 2],
      fg_index = Some 1\<rparr>"

definition leaf_graph :: ForceGraph where
  "leaf_graph = \<lparr>fg_nodes = [toggle_node 1 ''a'' 1 True True], fg_links = [], fg_index = Some 1\<rparr>"

text \<open>
  A primitive for the examples whose result depends on the invocations made before it.
\<close>

definition memo_primitive :: "nat list \<Rightarrow> nat \<Rightarrow> NodeDetail" where
  "memo_primitive invoked index =
     \<lparr>nd_index = index, nd_id = ''@1'', nd_name = ''Object'', nd_distance = 1,
      nd_retainedSize = int (length invoked), nd_children = []\<rparr>"

text \<open>
  What the traversal keeps true of the graph under construction: a node carries the
  index and the id of one materialized detail, and its name is that id; a link joins
  the details of a parent and of a child that passed the distance filter.
\<close>

definition node_ok :: "(nat \<Rightarrow> NodeDetail) \<Rightarrow> GraphNode \<Rightarrow> bool" where
  "node_ok serialize n \<longleftrightarrow>
     gn_name n = gn_id n \<and>
     (\<exists>i. gn_index n = nd_index (serialize i) \<and> gn_id n = nd_id (serialize i))"

definition link_ok :: "(nat \<Rightarrow> NodeDetail) \<Rightarrow> GraphLink \<Rightarrow> bool" where
  "link_ok serialize l \<longleftrightarrow>
     (\<exists>p c. gl_source l = nd_id (serialize p) \<and> gl_sourceIndex l = nd_index (serialize p) \<and>
            gl_target l = nd_id (serialize c) \<and> gl_targetIndex l = nd_index (serialize c) \<and>
            nd_distance (serialize c) = 1 + nd_distance (serialize p))"

definition trav_inv :: "(nat \<Rightarrow> NodeDetail) \<Rightarrow> Traversal \<Rightarrow> bool" where
  "trav_inv serialize st \<longleftrightarrow>
     distinct (map gn_id (tr_nodes st)) \<and>
     gn_id ` set (tr_nodes st) \<subseteq> tr_isRecorded st \<and>
     list_all (node_ok serialize) (tr_nodes st) \<and>
     list_all (link_ok serialize) (tr_links st)"

text \<open>
  A snapshot for the examples: leak point 5 retains 6, which retains 7; the edge from 5
  to 8 is not a retainer edge (the distance of 8 is not one more than that of 5).
\<close>

definition ex_serialize :: "nat \<Rightarrow> NodeDetail" where
  "ex_serialize i =
     (if i = 5 then \<lparr>nd_index = 5, nd_id = ''@5'', nd_name = ''Leak'', nd_distance = 0,
                     nd_retainedSize = 100,
                     nd_children = [\<lparr>c_index = 6, c_name_or_index = ''a''\<rparr>,
                                    \<lparr>c_index = 8, c_name_or_index = ''b''\<rparr>]\<rparr>
      else if i = 6 then \<lparr>nd_index = 6, nd_id = ''@6'', nd_name = ''Array'', nd_distance = 1,
                     nd_retainedSize = 1,
                     nd_children = [\<lparr>c_index = 7, c_name_or_index = ''0''\<rparr>]\<rparr>
      else if i = 7 then \<lparr>nd_index = 7, nd_id = ''@7'', nd_name = ''Object'', nd_distance = 2,
                     nd_retainedSize = 1, nd_children = []\<rparr>
      else \<lparr>nd_index = i, nd_id = ''@x'', nd_name = ''other'', nd_distance = 5,
             nd_retainedSize = 0, nd_children = []\<rparr>)"

definition ex_config :: ProfilerConfig where
  "ex_config = \<lparr>distance_limit = 2, node_limit = 2, leak_limit = 10\<rparr>"

definition ex_leak :: LeakPoint where
  "ex_leak = \<lparr>lp_index = 5, lp_fields = []\<rparr>"

definition ex_graph :: ForceGraph where
  "ex_graph =
     \<lparr>fg_nodes =
        [\<lparr>gn_index = 5, gn_name = ''@5'', gn_isMain = Some True, gn_id = ''@5'',
          gn_size = 40, gn_category = 0, gn_ignore = False, gn_flag = False,
          gn_label = Some ''@5'', gn_symbolSize = Some 40\<rparr>,
         \<lparr>gn_index = 6, gn_name = ''@6'', gn_isMain = Some False, gn_id = ''@6'',
          gn_size = 30, gn_category = 1, gn_ignore = False, gn_flag = True,
          gn_label = Some ''@6'', gn_symbolSize = Some 30\<rparr>,
         \<lparr>gn_index = 7, gn_name = ''@7'', gn_isMain = None, gn_id = ''@7'',
          gn_size = 30, gn_category = 1, gn_ignore = False, gn_flag = True,
          gn_label = Some ''@7'', gn_symbolSize = Some 30\<rparr>],
      fg_links =
        [\<lparr>gl_source = ''@5'', gl_target = ''@6'', gl_sourceIndex = 5, gl_targetIndex = 6,
          gl_name_or_index = ''a''\<rparr>,
         \<lparr>gl_source = ''@6'', gl_target = ''@7'', gl_sourceIndex = 6, gl_targetIndex = 7,
          gl_name_or_index = ''0''\<rparr>],
      fg_index = Some 5\<rparr>"

text \<open>The configuration of the one-hop scenario.\<close>

definition boundary_config :: ProfilerConfig where
  "boundary_config = \<lparr>distance_limit = 1, node_limit = 2, leak_limit = 10\<rparr>"

text \<open>
  A snapshot in which the two children 6 and 7 of the leak point materialize to one id.
\<close>

definition twin_serialize :: "nat \<Rightarrow> NodeDetail" where
  "twin_serialize i =
     (if i = 5 then \<lparr>nd_index = 5, nd_id = ''@5'', nd_name = ''Leak'', nd_distance = 0,
                     nd_retainedSize = 100,
                     nd_children = [\<lparr>c_index = 6, c_name_or_index = ''a''\<rparr>,
                                    \<lparr>c_index = 7, c_name_or_index = ''b''\<rparr>]\<rparr>
      else \<lparr>nd_index = i, nd_id = ''@6'', nd_name = ''Array'', nd_distance = 1,
             nd_retainedSize = 60, nd_children = []\<rparr>)"

text \<open>
  \<open>retained_by config serialize rootDistance keys p k\<close>: the key \<open>p\<close> is recorded, it is
  the index of a materialized parent that lists \<open>k\<close> among its children at one more than
  its own distance, and \<open>k\<close> meets the two numeric conditions of line 122 against the
  retained size recorded for \<open>p\<close>.
\<close>

definition retained_by ::
  "ProfilerConfig \<Rightarrow> (nat \<Rightarrow> NodeDetail) \<Rightarrow> int \<Rightarrow> nat set \<Rightarrow> nat \<Rightarrow> nat \<Rightarrow> bool" where
  "retained_by config serialize rootDistance keys p k \<longleftrightarrow>
     p \<in> keys \<and>
     (\<exists>i child. p = nd_index (serialize i) \<and> child \<in> set (nd_children (serialize i)) \<and>
        c_index child = k \<and>
        nd_distance (serialize k) = 1 + nd_distance (serialize i) \<and>
        \<bar>rootDistance - nd_distance (serialize k)\<bar> < leak_limit config \<and>
        js_gt (js_div (nd_retainedSize (serialize k)) (nd_retainedSize (serialize p)))
              (js_div 1 (node_limit config)))"

text \<open>
  What the traversal keeps true of \<open>biggestList\<close> and of the flags: the leak point stays
  recorded, an entry carries the retained size of its key, every other key is retained
  by a recorded parent, and every node is pushed with \<open>flag = true\<close> and, unless it is
  the leak point's, with \<open>category = 1\<close>.
\<close>

definition biggest_inv ::
  "ProfilerConfig \<Rightarrow> (nat \<Rightarrow> NodeDetail) \<Rightarrow> LeakPoint \<Rightarrow> int \<Rightarrow> Traversal \<Rightarrow> bool" where
  "biggest_inv config serialize leak rootDistance st \<longleftrightarrow>
     lp_index leak \<in> fst ` set (tr_biggestList st) \<and>
     (\<forall>k e. map_of (tr_biggestList st) k = Some e \<longrightarrow>
        be_retainedSize e = nd_retainedSize (serialize k) \<and>
        (k = lp_index leak \<or>
         (\<exists>p. retained_by config serialize rootDistance (fst ` set (tr_biggestList st)) p k))) \<and>
     (\<forall>n\<in>set (tr_nodes st). gn_flag n \<and> (gn_category n = 1 \<or> gn_index n = lp_index leak))"

text \<open>
  What the toggles of the biggest retainers keep true: only a node whose index is among
  the keys has lost \<open>flag = true\<close> or \<open>category = 1\<close>.
\<close>

definition untouched :: "nat set \<Rightarrow> GraphNode list \<Rightarrow> bool" where
  "untouched keys nodes \<longleftrightarrow>
     distinct (map gn_id nodes) \<and>
     (\<forall>n\<in>set nodes. gn_index n \<notin> keys \<longrightarrow> gn_flag n \<and> gn_category n = 1)"

text \<open>
  The links pushed up to a hop: they are ordered, and each joins a parent at distance at
  most \<open>d\<close> to a child one further.
\<close>

definition links_below :: "(nat \<Rightarrow> NodeDetail) \<Rightarrow> int \<Rightarrow> GraphLink list \<Rightarrow> bool" where
  "links_below serialize d links \<longleftrightarrow>
     links_ordered links \<and>
     (\<forall>l\<in>set links. \<exists>p c. gl_source l = nd_id (serialize p) \<and> gl_target l = nd_id (serialize c) \<and>
        nd_distance (serialize c) = 1 + nd_distance (serialize p) \<and>
        nd_distance (serialize p) \<le> d)"

text \<open>The same during a hop at distance \<open>d\<close>, with the indices collected for the next hop.\<close>

definition hop_inv :: "(nat \<Rightarrow> NodeDetail) \<Rightarrow> int \<Rightarrow> Traversal \<Rightarrow> bool" where
  "hop_inv serialize d st \<longleftrightarrow>
     links_below serialize d (tr_links st) \<and>
     (\<forall>i\<in>set (tr_tmpIndexArr st). nd_distance (serialize i) = 1 + d)"

section \<open>The toggle, in closed form\<close>

lemma findNode_length: "length (findNode ns key v cb) = length ns"
  by (simp add: findNode_def)

lemma apply_linksNodes_map:
  assumes pres: "\<And>n. gn_id (cb n) = gn_id n" and idem: "\<And>n. cb (cb n) = cb n"
  shows "apply_linksNodes ns ts cb = map (\<lambda>n. if gn_id n \<in> set ts then cb n else n) ns"
proof (induction ts arbitrary: ns)
  case Nil
  then show ?case by (simp add: apply_linksNodes_def)
next
  case (Cons t ts)
  have "apply_linksNodes ns (t # ts) cb = apply_linksNodes (findNode ns gn_id t cb) ts cb"
    by (simp add: apply_linksNodes_def)
  also have "\<dots> = map (\<lambda>n. if gn_id n \<in> set ts then cb n else n) (findNode ns gn_id t cb)"
    by (rule Cons.IH)
  also have "\<dots> = map (\<lambda>n. if gn_id n \<in> set (t # ts) then cb n else n) ns"
    by (simp add: findNode_def pres idem)
  finally show ?case .
qed

lemma expand_nodes:
  assumes "gn_flag data"
  shows "fg_nodes (setExpandOff g data) =
     map (\<lambda>n. if gn_id n = gn_id data then mark_expanded n
               else if gn_id n \<in> set (expand_linksNodes (fg_links g) (gn_id data)) then reveal n else n)
       (fg_nodes g)"
  using assms
  by (simp add: setExpandOff_def Let_def apply_linksNodes_map reveal_def mark_expanded_def findNode_def)

lemma collapse_nodes:
  assumes "\<not> gn_flag data"
  shows "fg_nodes (setExpandOff g data) =
     map (\<lambda>n. if gn_id n = gn_id data then mark_collapsed n
               else if gn_id n \<in> set (collapse_linksNodes (fg_links g) (gn_id data) []) then hide n else n)
       (fg_nodes g)"
  using assms
  by (simp add: setExpandOff_def Let_def apply_linksNodes_map hide_def mark_collapsed_def findNode_def)

lemma setExpandOff_links: "fg_links (setExpandOff g data) = fg_links g"
  by (simp add: setExpandOff_def Let_def)

lemma setExpandOff_index: "fg_index (setExpandOff g data) = fg_index g"
  by (simp add: setExpandOff_def Let_def)

lemma collapse_mono: "set acc \<subseteq> set (collapse_linksNodes ls a acc)"
proof (induction ls arbitrary: acc)
  case Nil
  then show ?case by simp
next
  case (Cons l ls)
  let ?acc1 = "if gl_source l = a then acc @ [gl_target l] else acc"
  let ?acc2 = "?acc1 @ map (\<lambda>n. gl_target l) (filter (\<lambda>n. gl_source l = n \<and> gl_target l \<noteq> a) ?acc1)"
  have "set acc \<subseteq> set ?acc2" by auto
  also have "\<dots> \<subseteq> set (collapse_linksNodes ls a ?acc2)" by (rule Cons.IH)
  finally show ?case by (simp add: Let_def)
qed

lemma collapse_targets:
  "x \<in> set (collapse_linksNodes ls a acc) \<Longrightarrow> x \<in> set acc \<or> x \<in> gl_target ` set ls"
proof (induction ls arbitrary: acc)
  case Nil
  then show ?case by simp
next
  case (Cons l ls)
  let ?acc1 = "if gl_source l = a then acc @ [gl_target l] else acc"
  let ?acc2 = "?acc1 @ map (\<lambda>n. gl_target l) (filter (\<lambda>n. gl_source l = n \<and> gl_target l \<noteq> a) ?acc1)"
  from Cons.prems have "x \<in> set (collapse_linksNodes ls a ?acc2)" by (simp add: Let_def)
  then have "x \<in> set ?acc2 \<or> x \<in> gl_target ` set ls" by (rule Cons.IH)
  then show ?case by (auto split: if_splits)
qed

lemma collapse_Cons:
  "collapse_linksNodes (l # ls) a acc =
     collapse_linksNodes ls a
       ((if gl_source l = a then acc @ [gl_target l] else acc) @
        map (\<lambda>n. gl_target l)
          (filter (\<lambda>n. gl_source l = n \<and> gl_target l \<noteq> a)
             (if gl_source l = a then acc @ [gl_target l] else acc)))"
  by (simp add: Let_def)

lemma collapse_direct:
  "l \<in> set ls \<Longrightarrow> gl_source l = a \<Longrightarrow> gl_target l \<in> set (collapse_linksNodes ls a acc)"
proof (induction ls arbitrary: acc)
  case Nil
  then show ?case by simp
next
  case (Cons l0 ls)
  define acc1 where "acc1 = (if gl_source l0 = a then acc @ [gl_target l0] else acc)"
  define acc2 where
    "acc2 = acc1 @ map (\<lambda>n. gl_target l0) (filter (\<lambda>n. gl_source l0 = n \<and> gl_target l0 \<noteq> a) acc1)"
  have eq: "collapse_linksNodes (l0 # ls) a acc = collapse_linksNodes ls a acc2"
    unfolding acc2_def acc1_def by (rule collapse_Cons)
  show ?case
  proof (cases "l = l0")
    case True
    with Cons.prems have "gl_target l \<in> set acc2" by (simp add: acc2_def acc1_def)
    with collapse_mono [of acc2 ls a] show ?thesis unfolding eq by blast
  next
    case False
    with Cons.prems have "l \<in> set ls" by simp
    then show ?thesis unfolding eq using Cons.prems(2) by (rule Cons.IH)
  qed
qed

lemma collapse_chain:
  "links_ordered ls \<Longrightarrow> l \<in> set ls \<Longrightarrow> gl_source l \<in> set (collapse_linksNodes ls a acc) \<Longrightarrow>
   gl_target l \<noteq> a \<Longrightarrow> gl_target l \<in> set (collapse_linksNodes ls a acc)"
proof (induction ls arbitrary: acc)
  case Nil
  then show ?case by simp
next
  case (Cons l0 ls)
  define acc1 where "acc1 = (if gl_source l0 = a then acc @ [gl_target l0] else acc)"
  define acc2 where
    "acc2 = acc1 @ map (\<lambda>n. gl_target l0) (filter (\<lambda>n. gl_source l0 = n \<and> gl_target l0 \<noteq> a) acc1)"
  have eq: "collapse_linksNodes (l0 # ls) a acc = collapse_linksNodes ls a acc2"
    unfolding acc2_def acc1_def by (rule collapse_Cons)
  from Cons.prems(1) have ord: "links_ordered ls" and self: "gl_target l0 \<noteq> gl_source l0"
    and later: "\<forall>m\<in>set ls. gl_target m \<noteq> gl_source l0"
    by (simp_all add: list_all_iff)
  from Cons.prems(3) have src: "gl_source l \<in> set (collapse_linksNodes ls a acc2)"
    unfolding eq .
  show ?case
  proof (cases "l = l0")
    case True
    from src True have "gl_source l0 \<in> set acc2 \<or> gl_source l0 \<in> gl_target ` set ls"
      by (simp add: collapse_targets)
    with later have "gl_source l0 \<in> set acc2" by auto
    with self have "gl_source l0 \<in> set acc1" by (auto simp: acc2_def)
    with Cons.prems(4) True have "gl_target l0 \<in> set acc2"
      by (auto simp: acc2_def)
    with collapse_mono [of acc2 ls a] True show ?thesis unfolding eq by blast
  next
    case False
    with Cons.prems have "l \<in> set ls" by simp
    with ord show ?thesis unfolding eq using src Cons.prems(4) by (rule Cons.IH)
  qed
qed

lemma link_edges_iff:
  "(x, y) \<in> link_edges links a \<longleftrightarrow> (\<exists>l\<in>set links. gl_source l = x \<and> gl_target l = y \<and> y \<noteq> a)"
  by (auto simp: link_edges_def)

lemma collapse_complete:
  assumes "links_ordered links" and "y \<in> descendants links a"
  shows "y \<in> set (collapse_linksNodes links a [])"
proof -
  from assms(2) have "(a, y) \<in> (link_edges links a)\<^sup>+" by (simp add: descendants_def)
  then show ?thesis
  proof (induction rule: trancl_induct)
    case (base y)
    then show ?case using collapse_direct by (auto simp: link_edges_iff)
  next
    case (step y z)
    from step.hyps(2) obtain l where "l \<in> set links" "gl_source l = y" "gl_target l = z" "z \<noteq> a"
      by (auto simp: link_edges_iff)
    with step.IH collapse_chain [OF assms(1), of l a "[]"] show ?case by auto
  qed
qed

lemma collapse_sound_gen:
  assumes "set ls \<subseteq> set links" and "set acc \<subseteq> insert a (descendants links a)"
  shows "set (collapse_linksNodes ls a acc) \<subseteq> insert a (descendants links a)"
  using assms
proof (induction ls arbitrary: acc)
  case Nil
  then show ?case by simp
next
  case (Cons l ls)
  let ?acc1 = "if gl_source l = a then acc @ [gl_target l] else acc"
  let ?acc2 = "?acc1 @ map (\<lambda>n. gl_target l) (filter (\<lambda>n. gl_source l = n \<and> gl_target l \<noteq> a) ?acc1)"
  from Cons.prems(1) have l: "l \<in> set links" and ls: "set ls \<subseteq> set links" by simp_all
  have direct: "gl_target l \<in> insert a (descendants links a)" if "gl_source l = a"
  proof (cases "gl_target l = a")
    case True
    then show ?thesis by simp
  next
    case False
    with l that have "(a, gl_target l) \<in> link_edges links a" by (auto simp: link_edges_iff)
    then show ?thesis by (auto simp: descendants_def)
  qed
  have acc1: "set ?acc1 \<subseteq> insert a (descendants links a)"
    using Cons.prems(2) direct by auto
  have chain: "gl_target l \<in> insert a (descendants links a)"
    if "gl_source l \<in> set ?acc1" "gl_target l \<noteq> a"
  proof -
    from l that(2) have e: "(gl_source l, gl_target l) \<in> link_edges links a"
      by (auto simp: link_edges_iff)
    from that(1) acc1 have "gl_source l = a \<or> (a, gl_source l) \<in> (link_edges links a)\<^sup>+"
      by (auto simp: descendants_def)
    with e have "(a, gl_target l) \<in> (link_edges links a)\<^sup>+"
      by (auto intro: trancl_into_trancl)
    then show ?thesis by (simp add: descendants_def)
  qed
  have "set ?acc2 \<subseteq> insert a (descendants links a)"
    using acc1 chain by auto
  then have "set (collapse_linksNodes ls a ?acc2) \<subseteq> insert a (descendants links a)"
    by (rule Cons.IH [OF ls])
  then show ?case by (simp add: Let_def)
qed

lemma collapse_sound:
  "set (collapse_linksNodes links a []) \<subseteq> insert a (descendants links a)"
  by (rule collapse_sound_gen) simp_all

lemma collapse_no_source:
  "a \<notin> gl_source ` set ls \<Longrightarrow> collapse_linksNodes ls a [] = []"
  by (induction ls) (auto simp: Let_def)

lemmas toggle_examples =
  toggle_node_def toggle_link_def chain_graph_def unordered_graph_def leaf_graph_def

lemmas toggle_eval =
  setExpandOff_def expand_linksNodes_def apply_linksNodes_def findNode_def
  reveal_def mark_expanded_def hide_def mark_collapsed_def Let_def

section \<open>Claims about the toggle\<close>

text \<open>
  C1 (as amended). Collapse transition: for a node whose flag is false, on a graph whose
  links are ordered (every link into an id stands before every link out of it, the order
  in which \<^verbatim>\<open>createForceGraph\<close> pushes them), \<^verbatim>\<open>setExpandOff\<close> sets
  \<open>ignore = true\<close> and \<open>flag = true\<close> on the node of every id reachable from \<open>data.id\<close>
  through the transitive closure of the links (edges into \<open>data.id\<close> left out), sets the
  toggled node to \<open>ignore = true\<close>, \<open>flag = true\<close>, \<open>category = 1\<close>, and changes nothing
  else.
\<close>

theorem toggle_collapse:
  assumes "\<not> gn_flag data" and "links_ordered (fg_links g)"
  shows "setExpandOff g data =
     g\<lparr>fg_nodes :=
         map (\<lambda>n. if gn_id n = gn_id data
                   then n\<lparr>gn_ignore := True, gn_flag := True, gn_category := 1\<rparr>
                   else if gn_id n \<in> descendants (fg_links g) (gn_id data)
                   then n\<lparr>gn_ignore := True, gn_flag := True\<rparr>
                   else n) (fg_nodes g)\<rparr>"
proof -
  have sub: "descendants (fg_links g) (gn_id data)
        \<subseteq> set (collapse_linksNodes (fg_links g) (gn_id data) [])"
    using collapse_complete [OF assms(2)] by blast
  have "fg_nodes (setExpandOff g data) =
     map (\<lambda>n. if gn_id n = gn_id data
               then n\<lparr>gn_ignore := True, gn_flag := True, gn_category := 1\<rparr>
               else if gn_id n \<in> descendants (fg_links g) (gn_id data)
               then n\<lparr>gn_ignore := True, gn_flag := True\<rparr>
               else n) (fg_nodes g)"
    unfolding collapse_nodes [OF assms(1)]
    using sub collapse_sound [of "fg_links g" "gn_id data"]
    by (auto simp: mark_collapsed_def hide_def)
  moreover have "setExpandOff g data = g\<lparr>fg_nodes := fg_nodes (setExpandOff g data)\<rparr>"
    by (simp add: setExpandOff_def Let_def)
  ultimately show ?thesis by simp
qed

text \<open>In the chain \<open>a \<rightarrow> b \<rightarrow> c\<close> both \<open>b\<close> and \<open>c\<close> descend from \<open>a\<close>.\<close>

lemma chain_descendants:
  "''b'' \<in> descendants (fg_links (chain_graph flag)) ''a''"
  "''c'' \<in> descendants (fg_links (chain_graph flag)) ''a''"
proof -
  let ?R = "link_edges (fg_links (chain_graph flag)) ''a''"
  have ab: "(''a'', ''b'') \<in> ?R" and bc: "(''b'', ''c'') \<in> ?R"
    by (simp_all add: link_edges_def toggle_examples)
  from ab show "''b'' \<in> descendants (fg_links (chain_graph flag)) ''a''"
    by (auto simp: descendants_def)
  from ab bc have "(''a'', ''c'') \<in> ?R\<^sup>+" by (blast intro: trancl.intros)
  then show "''c'' \<in> descendants (fg_links (chain_graph flag)) ''a''"
    by (auto simp: descendants_def)
qed

text \<open>The collapse of \<open>a\<close> in the chain \<open>a \<rightarrow> b \<rightarrow> c\<close> hides \<open>b\<close> and \<open>c\<close>.\<close>

theorem toggle_collapse_witness:
  "\<not> gn_flag (toggle_node 1 ''a'' 0 False False) \<and>
   links_ordered (fg_links (chain_graph False)) \<and>
   setExpandOff (chain_graph False) (toggle_node 1 ''a'' 0 False False) =
     \<lparr>fg_nodes = [toggle_node 1 ''a'' 1 True True, toggle_node 2 ''b'' 1 True True,
                  toggle_node 3 ''c'' 1 True True],
      fg_links = [toggle_link ''a'' 1 ''b'' 2, toggle_link ''b'' 2 ''c'' 3],
      fg_index = Some 1\<rparr>"
proof -
  have h1: "\<not> gn_flag (toggle_node 1 ''a'' 0 False False)"
    by (simp add: toggle_examples)
  have h2: "links_ordered (fg_links (chain_graph False))"
    by (simp add: toggle_examples)
  show ?thesis
    using h1 h2 toggle_collapse [OF h1 h2] chain_descendants [of False]
    by (simp add: toggle_examples)
qed

text \<open>
  C1 as stated, for every graph, fails: the collapse loop is a single pass over the links,
  so with the links \<open>b \<rightarrow> c\<close>, \<open>a \<rightarrow> b\<close> in this order the id \<open>c\<close> is reachable from
  \<open>a\<close> and its node stays visible.
\<close>

theorem toggle_collapse_counterexample:
  "\<not> gn_flag (toggle_node 1 ''a'' 0 False False) \<and>
   ''c'' \<in> descendants (fg_links unordered_graph) ''a'' \<and>
   gn_id (fg_nodes (setExpandOff unordered_graph (toggle_node 1 ''a'' 0 False False)) ! 2) = ''c'' \<and>
   gn_ignore (fg_nodes (setExpandOff unordered_graph (toggle_node 1 ''a'' 0 False False)) ! 2) = False"
proof -
  let ?R = "link_edges (fg_links unordered_graph) ''a''"
  have ab: "(''a'', ''b'') \<in> ?R" and bc: "(''b'', ''c'') \<in> ?R"
    by (simp_all add: link_edges_def toggle_examples)
  then have "(''a'', ''c'') \<in> ?R\<^sup>+" by (blast intro: trancl.intros)
  then have "''c'' \<in> descendants (fg_links unordered_graph) ''a''"
    by (auto simp: descendants_def)
  then show ?thesis
    by (simp add: toggle_examples toggle_eval)
qed

text \<open>
  C2. Expand transition: for a node whose flag is true, \<^verbatim>\<open>setExpandOff\<close> sets
  \<open>ignore = false\<close> and \<open>flag = true\<close> on every node whose id is the target of a link
  with source \<open>data.id\<close>, then sets the toggled node itself to \<open>ignore = false\<close>,
  \<open>flag = false\<close>, \<open>category = 0\<close> (the assignment to the toggled node is the last one,
  so it also decides a node that is its own target), and changes nothing else.
\<close>

theorem toggle_expand:
  assumes "gn_flag data"
  shows "setExpandOff g data =
     g\<lparr>fg_nodes :=
         map (\<lambda>n. if gn_id n = gn_id data
                   then n\<lparr>gn_ignore := False, gn_flag := False, gn_category := 0\<rparr>
                   else if gn_id n \<in> gl_target ` {l \<in> set (fg_links g). gl_source l = gn_id data}
                   then n\<lparr>gn_ignore := False, gn_flag := True\<rparr>
                   else n) (fg_nodes g)\<rparr>"
proof -
  have "set (expand_linksNodes (fg_links g) (gn_id data))
          = gl_target ` {l \<in> set (fg_links g). gl_source l = gn_id data}"
    by (simp add: expand_linksNodes_def)
  then have "fg_nodes (setExpandOff g data) =
     map (\<lambda>n. if gn_id n = gn_id data
               then n\<lparr>gn_ignore := False, gn_flag := False, gn_category := 0\<rparr>
               else if gn_id n \<in> gl_target ` {l \<in> set (fg_links g). gl_source l = gn_id data}
               then n\<lparr>gn_ignore := False, gn_flag := True\<rparr>
               else n) (fg_nodes g)"
    unfolding expand_nodes [OF assms]
    by (simp add: mark_expanded_def reveal_def)
  moreover have "setExpandOff g data = g\<lparr>fg_nodes := fg_nodes (setExpandOff g data)\<rparr>"
    by (simp add: setExpandOff_def Let_def)
  ultimately show ?thesis by simp
qed

text \<open>The expansion of \<open>a\<close> in the chain \<open>a \<rightarrow> b \<rightarrow> c\<close> reveals \<open>b\<close> only.\<close>

theorem toggle_expand_witness:
  "gn_flag (toggle_node 1 ''a'' 0 False True) \<and>
   setExpandOff (chain_graph True) (toggle_node 1 ''a'' 0 False True) =
     \<lparr>fg_nodes = [toggle_node 1 ''a'' 0 False False, toggle_node 2 ''b'' 1 False True,
                  toggle_node 3 ''c'' 1 False True],
      fg_links = [toggle_link ''a'' 1 ''b'' 2, toggle_link ''b'' 2 ''c'' 3],
      fg_index = Some 1\<rparr>"
proof -
  have h: "gn_flag (toggle_node 1 ''a'' 0 False True)"
    by (simp add: toggle_examples)
  show ?thesis
    using h toggle_expand [OF h, of "chain_graph True"]
    by (simp add: toggle_examples)
qed

text \<open>
  C8 (as amended). For a node whose id is the source of no link, \<^verbatim>\<open>setExpandOff\<close>
  leaves the links and every node of another id unchanged; the toggled node itself is
  still written: Expanded (\<open>ignore = false\<close>, \<open>flag = false\<close>, \<open>category = 0\<close>) when its
  flag was true, Collapsed (\<open>ignore = true\<close>, \<open>flag = true\<close>, \<open>category = 1\<close>) otherwise.
\<close>

theorem toggle_leaf:
  assumes "gn_id data \<notin> gl_source ` set (fg_links g)"
  shows "setExpandOff g data =
     g\<lparr>fg_nodes :=
         map (\<lambda>n. if gn_id n = gn_id data
                   then (if gn_flag data
                         then n\<lparr>gn_ignore := False, gn_flag := False, gn_category := 0\<rparr>
                         else n\<lparr>gn_ignore := True, gn_flag := True, gn_category := 1\<rparr>)
                   else n) (fg_nodes g)\<rparr>"
proof -
  from assms have "expand_linksNodes (fg_links g) (gn_id data) = []"
    by (force simp: expand_linksNodes_def filter_empty_conv)
  moreover from assms have "collapse_linksNodes (fg_links g) (gn_id data) [] = []"
    by (rule collapse_no_source)
  ultimately show ?thesis
    by (simp add: setExpandOff_def Let_def apply_linksNodes_def findNode_def
        mark_expanded_def mark_collapsed_def)
qed

text \<open>The leaf \<open>c\<close> of the chain, toggled while its flag is true.\<close>

theorem toggle_leaf_witness:
  "gn_id (toggle_node 3 ''c'' 1 False True) \<notin> gl_source ` set (fg_links (chain_graph False)) \<and>
   setExpandOff (chain_graph False) (toggle_node 3 ''c'' 1 False True) =
     \<lparr>fg_nodes = [toggle_node 1 ''a'' 0 False False, toggle_node 2 ''b'' 1 False True,
                  toggle_node 3 ''c'' 0 False False],
      fg_links = [toggle_link ''a'' 1 ''b'' 2, toggle_link ''b'' 2 ''c'' 3],
      fg_index = Some 1\<rparr>"
proof -
  have h: "gn_id (toggle_node 3 ''c'' 1 False True) \<notin> gl_source ` set (fg_links (chain_graph False))"
    by (simp add: toggle_examples)
  show ?thesis
    using h toggle_leaf [OF h]
    by (simp add: toggle_examples)
qed

text \<open>
  C8 as stated fails: a collapsed node without links is changed by the toggle, so the
  graph is not left as it was.
\<close>

theorem toggle_leaf_counterexample:
  "gn_id (toggle_node 1 ''a'' 1 True True) \<notin> gl_source ` set (fg_links leaf_graph) \<and>
   setExpandOff leaf_graph (toggle_node 1 ''a'' 1 True True) \<noteq> leaf_graph"
  by (simp add: toggle_examples toggle_eval)

section \<open>Claims about serializeNode and the search list\<close>

lemma serialize_call_hit:
  "ss_cache s index = Some v \<Longrightarrow> serialize_call prim index s = (v, s)"
  by (simp add: serialize_call_def)

lemma serialize_call_cached:
  "ss_cache (snd (serialize_call prim index s)) index = Some (fst (serialize_call prim index s))"
  by (simp add: serialize_call_def Let_def split: option.splits)

lemma serialize_call_keeps:
  "ss_cache s j = Some v \<Longrightarrow> ss_cache (snd (serialize_call prim index s)) j = Some v"
  by (auto simp: serialize_call_def Let_def split: option.splits)

lemma serialize_calls_keeps:
  "ss_cache s j = Some v \<Longrightarrow> ss_cache (serialize_calls prim indexes s) j = Some v"
  unfolding serialize_calls_def
  by (induction indexes arbitrary: s) (simp_all add: serialize_call_keeps)

lemma serialize_call_inv:
  assumes "dom (ss_cache s) = set (ss_invoked s)" and "distinct (ss_invoked s)"
  shows "dom (ss_cache (snd (serialize_call prim index s)))
           = set (ss_invoked (snd (serialize_call prim index s)))
         \<and> distinct (ss_invoked (snd (serialize_call prim index s)))"
proof (cases "ss_cache s index")
  case None
  with assms(1) have "index \<notin> set (ss_invoked s)" by auto
  with assms None show ?thesis by (simp add: serialize_call_def Let_def)
next
  case (Some v)
  with assms show ?thesis by (simp add: serialize_call_def)
qed

lemma serialize_calls_inv:
  assumes "dom (ss_cache s) = set (ss_invoked s)" and "distinct (ss_invoked s)"
  shows "dom (ss_cache (serialize_calls prim indexes s))
           = set (ss_invoked (serialize_calls prim indexes s))
         \<and> distinct (ss_invoked (serialize_calls prim indexes s))"
  using assms unfolding serialize_calls_def
proof (induction indexes arbitrary: s)
  case Nil
  then show ?case by simp
next
  case (Cons i indexes)
  from serialize_call_inv [OF Cons.prems, of prim i]
  show ?case by (simp add: Cons.IH)
qed

lemma serialize_call_invoked:
  "set (ss_invoked (snd (serialize_call prim index s))) \<subseteq> insert index (set (ss_invoked s))"
  by (auto simp: serialize_call_def Let_def split: option.splits)

lemma serialize_calls_invoked:
  "set (ss_invoked (serialize_calls prim indexes s)) \<subseteq> set (ss_invoked s) \<union> set indexes"
proof (induction indexes arbitrary: s)
  case Nil
  then show ?case by (simp add: serialize_calls_def)
next
  case (Cons i indexes)
  have "serialize_calls prim (i # indexes) s
          = serialize_calls prim indexes (snd (serialize_call prim i s))"
    by (simp add: serialize_calls_def)
  with Cons.IH [of "snd (serialize_call prim i s)"] serialize_call_invoked [of prim i s]
  show ?case by auto
qed

text \<open>
  C7. The accessor returned by \<^verbatim>\<open>serializeNode\<close> starts with an empty cache. After any
  calls \<open>before\<close>, the first call for an index that was not asked yet invokes the
  primitive once and stores the result; after any further calls \<open>between\<close>, a call
  for the same index returns the stored value and leaves the state as it is (the
  primitive is not invoked), so two calls for one index return the identical value. No
  index is ever invoked twice.
\<close>

theorem serializeNode_memoizes:
  fixes prim :: "nat list \<Rightarrow> nat \<Rightarrow> NodeDetail"
    and before between :: "nat list" and index :: nat
  defines "s0 \<equiv> serialize_calls prim before serializeNode"
  defines "s1 \<equiv> snd (serialize_call prim index s0)"
  defines "s2 \<equiv> serialize_calls prim between s1"
  shows "(index \<notin> set before \<longrightarrow>
            fst (serialize_call prim index s0) = prim (ss_invoked s0) index \<and>
            ss_invoked s1 = ss_invoked s0 @ [index]) \<and>
         ss_cache s1 index = Some (fst (serialize_call prim index s0)) \<and>
         serialize_call prim index s2 = (fst (serialize_call prim index s0), s2) \<and>
         distinct (ss_invoked s2)"
proof -
  have init: "dom (ss_cache serializeNode) = set (ss_invoked serializeNode)"
    "distinct (ss_invoked serializeNode)"
    by (simp_all add: serializeNode_def)
  have inv0: "dom (ss_cache s0) = set (ss_invoked s0)" "distinct (ss_invoked s0)"
    unfolding s0_def using serialize_calls_inv [OF init] by simp_all
  have first: "fst (serialize_call prim index s0) = prim (ss_invoked s0) index \<and>
      ss_invoked s1 = ss_invoked s0 @ [index]" if "index \<notin> set before"
  proof -
    from serialize_calls_invoked [of prim before serializeNode] that have "index \<notin> set (ss_invoked s0)"
      by (auto simp: s0_def serializeNode_def)
    with inv0(1) have "ss_cache s0 index = None" by auto
    then show ?thesis by (simp add: s1_def serialize_call_def Let_def)
  qed
  have stored: "ss_cache s1 index = Some (fst (serialize_call prim index s0))"
    unfolding s1_def by (rule serialize_call_cached)
  then have "ss_cache s2 index = Some (fst (serialize_call prim index s0))"
    unfolding s2_def by (rule serialize_calls_keeps)
  then have again: "serialize_call prim index s2 = (fst (serialize_call prim index s0), s2)"
    by (rule serialize_call_hit)
  have inv1: "dom (ss_cache s1) = set (ss_invoked s1)" "distinct (ss_invoked s1)"
    unfolding s1_def using serialize_call_inv [OF inv0] by simp_all
  have "distinct (ss_invoked s2)"
    unfolding s2_def using serialize_calls_inv [OF inv1] by simp
  with first stored again show ?thesis by blast
qed


text \<open>Index 7 asked after index 3, and asked again after 4 and 3.\<close>

theorem serializeNode_memoizes_witness:
  "(7::nat) \<notin> set [3] \<and>
   fst (serialize_call memo_primitive 7 (serialize_calls memo_primitive [3] serializeNode))
     = memo_primitive [3] 7 \<and>
   ss_invoked (snd (serialize_call memo_primitive 7 (serialize_calls memo_primitive [3] serializeNode)))
     = [3, 7] \<and>
   fst (serialize_call memo_primitive 7
          (serialize_calls memo_primitive [4, 3]
             (snd (serialize_call memo_primitive 7 (serialize_calls memo_primitive [3] serializeNode)))))
     = memo_primitive [3] 7 \<and>
   ss_invoked (snd (serialize_call memo_primitive 7
          (serialize_calls memo_primitive [4, 3]
             (snd (serialize_call memo_primitive 7 (serialize_calls memo_primitive [3] serializeNode))))))
     = [3, 7, 4]"
  using serializeNode_memoizes [where index = 7 and before = "[3]" and prim = memo_primitive
      and between = "[4, 3]"]
  by (simp add: serialize_calls_def serialize_call_def serializeNode_def Let_def)

text \<open>
  C9. The \<open>searchList\<close> of the memory result, which is the list built by
  \<^verbatim>\<open>memCalculator\<close> mapped to indices, is the root index followed by the leak point
  indices in their given order.
\<close>

theorem searchList_root_then_leaks:
  "r_searchList (analytics_mem config serialize leakPoint rootIndex statistics aggregates)
     = rootIndex # map lp_index leakPoint \<and>
   map lp_index (snd (memCalculator config heapUsed serialize leakPoint rootIndex))
     = rootIndex # map lp_index leakPoint"
  by (simp add: analytics_mem_def memCalculator_def Let_def)

section \<open>Invariants of the traversal\<close>

lemma foldl_invariant:
  assumes "P s" and "\<And>s x. x \<in> set xs \<Longrightarrow> P s \<Longrightarrow> P (f s x)"
  shows "P (foldl f s xs)"
  using assms by (induction xs arbitrary: s) simp_all

lemma visit_child_inv:
  assumes "trav_inv serialize st"
    and "nd_distance (serialize (c_index child)) = 1 + nd_distance (serialize p)"
  shows "trav_inv serialize
           (visit_child config serialize rootDistance distanceDisplay (serialize p) st child)"
proof -
  have lk: "link_ok serialize
      \<lparr>gl_source = nd_id (serialize p), gl_target = nd_id (serialize (c_index child)),
       gl_sourceIndex = nd_index (serialize p),
       gl_targetIndex = nd_index (serialize (c_index child)),
       gl_name_or_index = c_name_or_index child\<rparr>"
    unfolding link_ok_def using assms(2) by auto
  have nd: "node_ok serialize
      \<lparr>gn_index = nd_index (serialize (c_index child)), gn_name = nd_id (serialize (c_index child)),
       gn_isMain = None, gn_id = nd_id (serialize (c_index child)), gn_size = 30,
       gn_category = 1, gn_ignore = b, gn_flag = True,
       gn_label = None, gn_symbolSize = None\<rparr>" for b
    unfolding node_ok_def by auto
  from assms(1) lk nd show ?thesis
    by (auto simp: trav_inv_def visit_child_def Let_def)
qed

lemma visit_parent_inv:
  assumes "trav_inv serialize st"
  shows "trav_inv serialize
           (visit_parent config serialize leak rootDistance distanceDisplay st index)"
proof (cases "nd_id (serialize index) \<in> tr_isRecorded st")
  case True
  with assms show ?thesis by (simp add: visit_parent_def Let_def)
next
  case False
  define st1 where "st1 = st\<lparr>tr_isRecorded := insert (nd_id (serialize index)) (tr_isRecorded st),
      tr_nodes := tr_nodes st @
        [\<lparr>gn_index = nd_index (serialize index), gn_name = nd_id (serialize index),
          gn_isMain = Some (lp_index leak = nd_index (serialize index)),
          gn_id = nd_id (serialize index),
          gn_size = (if lp_index leak = nd_index (serialize index) then 40 else 30),
          gn_category = (if lp_index leak = nd_index (serialize index) then 0 else 1),
          gn_ignore = (\<not> lp_index leak = nd_index (serialize index)), gn_flag = True,
          gn_label = None, gn_symbolSize = None\<rparr>]\<rparr>"
  have "node_ok serialize
        \<lparr>gn_index = nd_index (serialize index), gn_name = nd_id (serialize index),
          gn_isMain = Some (lp_index leak = nd_index (serialize index)),
          gn_id = nd_id (serialize index),
          gn_size = (if lp_index leak = nd_index (serialize index) then 40 else 30),
          gn_category = (if lp_index leak = nd_index (serialize index) then 0 else 1),
          gn_ignore = (\<not> lp_index leak = nd_index (serialize index)), gn_flag = True,
          gn_label = None, gn_symbolSize = None\<rparr>"
    unfolding node_ok_def by auto
  with assms False have inv1: "trav_inv serialize st1"
    by (auto simp: trav_inv_def st1_def)
  have "trav_inv serialize
      (foldl (visit_child config serialize rootDistance distanceDisplay (serialize index)) st1
         (filter (\<lambda>item. nd_distance (serialize (c_index item)) = 1 + nd_distance (serialize index))
            (nd_children (serialize index))))"
    using inv1 by (rule foldl_invariant [where P = "trav_inv serialize"]) (simp add: visit_child_inv)
  with False show ?thesis by (simp add: visit_parent_def Let_def st1_def)
qed

lemma bfs_while_done:
  "leakIndexList = [] \<or> distance_limit config < distanceDisplay \<Longrightarrow>
   bfs_while config serialize leak rootDistance leakIndexList distanceDisplay st = st"
  by (subst bfs_while.simps) auto

lemma bfs_while_step:
  "leakIndexList \<noteq> [] \<Longrightarrow> distanceDisplay \<le> distance_limit config \<Longrightarrow>
   bfs_while config serialize leak rootDistance leakIndexList distanceDisplay st =
     bfs_while config serialize leak rootDistance
       (tr_tmpIndexArr (foldl (visit_parent config serialize leak rootDistance distanceDisplay)
                          (st\<lparr>tr_tmpIndexArr := []\<rparr>) leakIndexList))
       (distanceDisplay + 1)
       (foldl (visit_parent config serialize leak rootDistance distanceDisplay)
          (st\<lparr>tr_tmpIndexArr := []\<rparr>) leakIndexList)"
  by (subst bfs_while.simps) (simp add: Let_def)

lemma bfs_while_inv:
  "trav_inv serialize st \<Longrightarrow>
   trav_inv serialize (bfs_while config serialize leak rootDistance leakIndexList distanceDisplay st)"
proof (induction config serialize leak rootDistance leakIndexList distanceDisplay st
    rule: bfs_while.induct)
  case (1 config serialize leak rootDistance leakIndexList distanceDisplay st)
  show ?case
  proof (cases "leakIndexList \<noteq> [] \<and> distanceDisplay \<le> distance_limit config")
    case True
    define st' where "st' = foldl (visit_parent config serialize leak rootDistance distanceDisplay)
        (st\<lparr>tr_tmpIndexArr := []\<rparr>) leakIndexList"
    from "1.prems" have "trav_inv serialize (st\<lparr>tr_tmpIndexArr := []\<rparr>)"
      by (simp add: trav_inv_def)
    then have "trav_inv serialize st'"
      unfolding st'_def by (rule foldl_invariant [where P = "trav_inv serialize"]) (rule visit_parent_inv)
    with True "1.IH" [OF True st'_def] have
      "trav_inv serialize (bfs_while config serialize leak rootDistance (tr_tmpIndexArr st')
          (distanceDisplay + 1) st')"
      by simp
    with True show ?thesis
      by (simp add: bfs_while_step st'_def)
  next
    case False
    then have "leakIndexList = [] \<or> distance_limit config < distanceDisplay" by auto
    with "1.prems" show ?thesis by (simp add: bfs_while_done)
  qed
qed

lemma traverse_inv: "trav_inv serialize (traverse config serialize leak)"
  unfolding traverse_def by (rule bfs_while_inv) (simp add: trav_inv_def)

section \<open>The graph of a leak point\<close>

lemma map_field_toggle:
  assumes "\<And>n. f (u1 n) = f n" and "\<And>n. f (u2 n) = f n"
  shows "map f (map (\<lambda>n. if P n then u1 n else if Q n then u2 n else n) ns) = map f ns"
  by (induction ns) (simp_all add: assms)

lemma setExpandOff_field:
  assumes "\<And>n. f (mark_expanded n) = f n" and "\<And>n. f (reveal n) = f n"
    and "\<And>n. f (mark_collapsed n) = f n" and "\<And>n. f (hide n) = f n"
  shows "map f (fg_nodes (setExpandOff g data)) = map f (fg_nodes g)"
proof (cases "gn_flag data")
  case True
  show ?thesis
    unfolding expand_nodes [OF True] by (rule map_field_toggle) (rule assms)+
next
  case False
  show ?thesis
    unfolding collapse_nodes [OF False] by (rule map_field_toggle) (rule assms)+
qed

lemma setExpandOff_identity:
  "map gn_id (fg_nodes (setExpandOff g data)) = map gn_id (fg_nodes g)"
  "map gn_name (fg_nodes (setExpandOff g data)) = map gn_name (fg_nodes g)"
  "map gn_index (fg_nodes (setExpandOff g data)) = map gn_index (fg_nodes g)"
  by (rule setExpandOff_field;
      simp add: mark_expanded_def mark_collapsed_def reveal_def hide_def)+

lemma expand_biggest_Cons:
  "expand_biggest g (k # keys) =
     expand_biggest (case catchNode (fg_nodes g) gn_index k of
                       None \<Rightarrow> g
                     | Some data \<Rightarrow> setExpandOff g data) keys"
  by (simp add: expand_biggest_def)

lemma expand_biggest_field:
  assumes "\<And>g data. f (setExpandOff g data) = f g"
  shows "f (expand_biggest g keys) = f g"
proof (induction keys arbitrary: g)
  case Nil
  show ?case by (simp add: expand_biggest_def)
next
  case (Cons k keys)
  show ?case
    unfolding expand_biggest_Cons Cons.IH
    by (simp add: assms split: option.splits)
qed

lemma expand_biggest_identity:
  "map gn_id (fg_nodes (expand_biggest g keys)) = map gn_id (fg_nodes g)"
  "map gn_name (fg_nodes (expand_biggest g keys)) = map gn_name (fg_nodes g)"
  "map gn_index (fg_nodes (expand_biggest g keys)) = map gn_index (fg_nodes g)"
  "fg_links (expand_biggest g keys) = fg_links g"
  by (rule expand_biggest_field, rule setExpandOff_identity setExpandOff_links)+

lemma leak_graph_identity:
  "map gn_id (fg_nodes (leak_graph config serialize leak))
     = map gn_id (tr_nodes (traverse config serialize leak))"
  "map gn_name (fg_nodes (leak_graph config serialize leak))
     = map gn_name (tr_nodes (traverse config serialize leak))"
  "map gn_index (fg_nodes (leak_graph config serialize leak))
     = map gn_index (tr_nodes (traverse config serialize leak))"
  "map gn_label (fg_nodes (leak_graph config serialize leak))
     = map (\<lambda>n. Some (gn_name n)) (tr_nodes (traverse config serialize leak))"
  "fg_links (leak_graph config serialize leak) = tr_links (traverse config serialize leak)"
proof -
  let ?g = "expand_biggest
      \<lparr>fg_nodes = tr_nodes (traverse config serialize leak),
       fg_links = tr_links (traverse config serialize leak), fg_index = None\<rparr>
      (object_keys (tr_biggestList (traverse config serialize leak)))"
  have lab: "map gn_label (fg_nodes (leak_graph config serialize leak))
      = map (\<lambda>n. Some n) (map gn_name (fg_nodes ?g))"
    by (simp add: leak_graph_def Let_def comp_def)
  show "map gn_label (fg_nodes (leak_graph config serialize leak))
     = map (\<lambda>n. Some (gn_name n)) (tr_nodes (traverse config serialize leak))"
    unfolding lab expand_biggest_identity by (simp add: comp_def)
  have "map gn_id (fg_nodes (leak_graph config serialize leak)) = map gn_id (fg_nodes ?g)"
    by (simp add: leak_graph_def Let_def comp_def)
  then show "map gn_id (fg_nodes (leak_graph config serialize leak))
     = map gn_id (tr_nodes (traverse config serialize leak))"
    by (simp add: expand_biggest_identity)
  have "map gn_name (fg_nodes (leak_graph config serialize leak)) = map gn_name (fg_nodes ?g)"
    by (simp add: leak_graph_def Let_def comp_def)
  then show "map gn_name (fg_nodes (leak_graph config serialize leak))
     = map gn_name (tr_nodes (traverse config serialize leak))"
    by (simp add: expand_biggest_identity)
  have "map gn_index (fg_nodes (leak_graph config serialize leak)) = map gn_index (fg_nodes ?g)"
    by (simp add: leak_graph_def Let_def comp_def)
  then show "map gn_index (fg_nodes (leak_graph config serialize leak))
     = map gn_index (tr_nodes (traverse config serialize leak))"
    by (simp add: expand_biggest_identity)
  show "fg_links (leak_graph config serialize leak) = tr_links (traverse config serialize leak)"
    by (simp add: leak_graph_def Let_def expand_biggest_identity)
qed

lemma leak_graph_nodes:
  assumes n: "n \<in> set (fg_nodes (leak_graph config serialize leak))"
  shows "gn_name n = gn_id n \<and> gn_label n = Some (gn_id n) \<and>
         (\<exists>i. gn_id n = nd_id (serialize i) \<and> gn_index n = nd_index (serialize i))"
proof -
  let ?g = "leak_graph config serialize leak"
  let ?ns = "tr_nodes (traverse config serialize leak)"
  from n obtain k where k: "k < length (fg_nodes ?g)" "fg_nodes ?g ! k = n"
    by (auto simp: in_set_conv_nth)
  have len: "length (fg_nodes ?g) = length ?ns"
    using leak_graph_identity(1) [of config serialize leak] by (metis length_map)
  from traverse_inv [of serialize config leak] k len have ok: "node_ok serialize (?ns ! k)"
    by (simp add: trav_inv_def list_all_length)
  have "gn_id n = gn_id (?ns ! k)"
    using arg_cong [OF leak_graph_identity(1) [of config serialize leak], of "\<lambda>xs. xs ! k"] k len
    by simp
  moreover have "gn_name n = gn_name (?ns ! k)"
    using arg_cong [OF leak_graph_identity(2) [of config serialize leak], of "\<lambda>xs. xs ! k"] k len
    by simp
  moreover have "gn_index n = gn_index (?ns ! k)"
    using arg_cong [OF leak_graph_identity(3) [of config serialize leak], of "\<lambda>xs. xs ! k"] k len
    by simp
  moreover have "gn_label n = Some (gn_name (?ns ! k))"
    using arg_cong [OF leak_graph_identity(4) [of config serialize leak], of "\<lambda>xs. xs ! k"] k len
    by simp
  ultimately show ?thesis
    using ok by (auto simp: node_ok_def)
qed

lemma leak_iteration_snd:
  "snd (leak_iteration config serialize acc leak) =
     (snd acc)(nd_name (serialize (lp_index leak)) @ ''::'' @ nd_id (serialize (lp_index leak))
                 \<mapsto> leak_graph config serialize leak)"
  by (simp add: leak_iteration_def Let_def)

lemma createForceGraph_built_gen:
  "snd (foldl (leak_iteration config serialize) acc leakPoint) key = Some g \<Longrightarrow>
   snd acc key = Some g \<or> (\<exists>leak\<in>set leakPoint. g = leak_graph config serialize leak)"
proof (induction leakPoint arbitrary: acc)
  case Nil
  then show ?case by simp
next
  case (Cons leak leakPoint)
  define k where
    "k = nd_name (serialize (lp_index leak)) @ ''::'' @ nd_id (serialize (lp_index leak))"
  from Cons.prems have
    "snd (foldl (leak_iteration config serialize) (leak_iteration config serialize acc leak) leakPoint) key
       = Some g"
    by simp
  then have "snd (leak_iteration config serialize acc leak) key = Some g \<or>
      (\<exists>leak\<in>set leakPoint. g = leak_graph config serialize leak)"
    by (rule Cons.IH)
  then have "((snd acc)(k \<mapsto> leak_graph config serialize leak)) key = Some g \<or>
      (\<exists>leak\<in>set leakPoint. g = leak_graph config serialize leak)"
    unfolding leak_iteration_snd k_def .
  then show ?case
    by (cases "key = k") auto
qed

lemma createForceGraph_built:
  assumes "snd (createForceGraph config heapUsed serialize leakPoint) key = Some g"
  shows "\<exists>leak\<in>set leakPoint. g = leak_graph config serialize leak"
  using createForceGraph_built_gen [of config serialize "(heapUsed, Map.empty)" leakPoint key g] assms
  by (simp add: createForceGraph_def)

text \<open>The example snapshot, traversed and built.\<close>

lemma ex_traverse:
  "traverse ex_config ex_serialize ex_leak =
     \<lparr>tr_nodes =
        [\<lparr>gn_index = 5, gn_name = ''@5'', gn_isMain = Some True, gn_id = ''@5'',
          gn_size = 40, gn_category = 0, gn_ignore = False, gn_flag = True,
          gn_label = None, gn_symbolSize = None\<rparr>,
         \<lparr>gn_index = 6, gn_name = ''@6'', gn_isMain = Some False, gn_id = ''@6'',
          gn_size = 30, gn_category = 1, gn_ignore = True, gn_flag = True,
          gn_label = None, gn_symbolSize = None\<rparr>,
         \<lparr>gn_index = 7, gn_name = ''@7'', gn_isMain = None, gn_id = ''@7'',
          gn_size = 30, gn_category = 1, gn_ignore = False, gn_flag = True,
          gn_label = None, gn_symbolSize = None\<rparr>],
      tr_links =
        [\<lparr>gl_source = ''@5'', gl_target = ''@6'', gl_sourceIndex = 5, gl_targetIndex = 6,
          gl_name_or_index = ''a''\<rparr>,
         \<lparr>gl_source = ''@6'', gl_target = ''@7'', gl_sourceIndex = 6, gl_targetIndex = 7,
          gl_name_or_index = ''0''\<rparr>],
      tr_biggestList =
        [(5, \<lparr>be_id = ''@5'', be_source = None, be_sourceId = None, be_distance = None,
              be_retainedSize = 100\<rparr>)],
      tr_isRecorded = {''@7'', ''@6'', ''@5''}, tr_tmpIndexArr = [7]\<rparr>"
  by (simp add: traverse_def ex_config_def ex_serialize_def ex_leak_def bfs_while.simps
      visit_parent_def visit_child_def biggest_eligible_def js_div_def Let_def)

lemma ex_leak_graph: "leak_graph ex_config ex_serialize ex_leak = ex_graph"
  unfolding leak_graph_def ex_traverse
  by (simp add: Let_def object_keys_def expand_biggest_def
      catchNode_def toggle_eval ex_graph_def ex_leak_def)

lemma ex_build:
  "snd (createForceGraph ex_config Map.empty ex_serialize [ex_leak]) ''Leak::@5'' = Some ex_graph"
  by (simp add: createForceGraph_def leak_iteration_snd ex_leak_graph)
     (simp add: ex_serialize_def ex_leak_def)

section \<open>Claims about the graphs built by createForceGraph\<close>

lemma twin_traverse:
  "map gn_id (tr_nodes (traverse boundary_config twin_serialize ex_leak)) = [''@5'', ''@6'']"
  by (simp add: traverse_def boundary_config_def twin_serialize_def ex_leak_def bfs_while.simps
      visit_parent_def visit_child_def biggest_eligible_def js_div_def Let_def)

text \<open>
  C4. In every graph stored by \<^verbatim>\<open>createForceGraph\<close> the ids of the nodes are pairwise
  distinct.
\<close>

theorem graph_ids_unique:
  assumes "snd (createForceGraph config heapUsed serialize leakPoint) key = Some g"
  shows "distinct (map gn_id (fg_nodes g))"
proof -
  from createForceGraph_built [OF assms] obtain leak where g: "g = leak_graph config serialize leak"
    by blast
  from traverse_inv [of serialize config leak] show ?thesis
    by (simp add: g leak_graph_identity trav_inv_def)
qed

text \<open>
  Two indices with one id: the second child is not pushed again, the ids stay distinct.
\<close>

theorem graph_ids_unique_witness:
  "snd (createForceGraph boundary_config Map.empty twin_serialize [ex_leak]) ''Leak::@5''
     = Some (leak_graph boundary_config twin_serialize ex_leak) \<and>
   nd_id (twin_serialize 6) = nd_id (twin_serialize 7) \<and>
   map gn_id (fg_nodes (leak_graph boundary_config twin_serialize ex_leak)) = [''@5'', ''@6''] \<and>
   distinct (map gn_id (fg_nodes (leak_graph boundary_config twin_serialize ex_leak)))"
proof -
  have built: "snd (createForceGraph boundary_config Map.empty twin_serialize [ex_leak]) ''Leak::@5''
     = Some (leak_graph boundary_config twin_serialize ex_leak)"
    by (simp add: createForceGraph_def leak_iteration_snd) (simp add: twin_serialize_def ex_leak_def)
  have same: "nd_id (twin_serialize 6) = nd_id (twin_serialize 7)"
    by (simp add: twin_serialize_def)
  from built same graph_ids_unique [OF built] show ?thesis
    by (simp add: leak_graph_identity twin_traverse)
qed

text \<open>
  C10. Every node of every graph stored by \<^verbatim>\<open>createForceGraph\<close> has its name equal to
  its id, which is the id of a materialized detail (the one whose index the node carries),
  and after the post-processing its label is that id too.
\<close>

theorem graph_name_is_id:
  assumes "snd (createForceGraph config heapUsed serialize leakPoint) key = Some g"
  shows "\<forall>n\<in>set (fg_nodes g).
           gn_name n = gn_id n \<and> gn_label n = Some (gn_id n) \<and>
           (\<exists>i. gn_id n = nd_id (serialize i) \<and> gn_index n = nd_index (serialize i))"
proof
  fix n assume n: "n \<in> set (fg_nodes g)"
  from createForceGraph_built [OF assms] obtain leak where g: "g = leak_graph config serialize leak"
    by blast
  from n show "gn_name n = gn_id n \<and> gn_label n = Some (gn_id n) \<and>
      (\<exists>i. gn_id n = nd_id (serialize i) \<and> gn_index n = nd_index (serialize i))"
    unfolding g by (rule leak_graph_nodes)
qed

text \<open>The three nodes of the example graph: name and label are the id, not \<open>Leak\<close>.\<close>

theorem graph_name_is_id_witness:
  "snd (createForceGraph ex_config Map.empty ex_serialize [ex_leak]) ''Leak::@5'' = Some ex_graph \<and>
   gn_name (fg_nodes ex_graph ! 0) = ''@5'' \<and>
   gn_id (fg_nodes ex_graph ! 0) = ''@5'' \<and>
   gn_label (fg_nodes ex_graph ! 0) = Some ''@5'' \<and>
   nd_name (ex_serialize 5) = ''Leak''"
proof -
  have "fg_nodes ex_graph ! 0 \<in> set (fg_nodes ex_graph)"
    by (simp add: ex_graph_def)
  with graph_name_is_id [OF ex_build]
  have "gn_name (fg_nodes ex_graph ! 0) = gn_id (fg_nodes ex_graph ! 0) \<and>
        gn_label (fg_nodes ex_graph ! 0) = Some (gn_id (fg_nodes ex_graph ! 0))"
    by blast
  moreover have "gn_id (fg_nodes ex_graph ! 0) = ''@5''"
    by (simp add: ex_graph_def)
  moreover have "nd_name (ex_serialize 5) = ''Leak''"
    by (simp add: ex_serialize_def)
  ultimately show ?thesis
    using ex_build by simp
qed

text \<open>
  C3. The snapshot analyzer returns, for an index, the detail of that index. Then in
  every graph stored by \<^verbatim>\<open>createForceGraph\<close>, for every link, the materialized distance
  of the target index is the materialized distance of the source index plus 1. If
  moreover an id has one distance in the snapshot, the same holds for the graph nodes
  that carry the link's source and target ids.
\<close>

theorem link_distance:
  assumes "snd (createForceGraph config heapUsed serialize leakPoint) key = Some g"
    and "\<forall>i. nd_index (serialize i) = i"
  shows "(\<forall>l\<in>set (fg_links g).
            nd_distance (serialize (gl_targetIndex l))
              = nd_distance (serialize (gl_sourceIndex l)) + 1) \<and>
         ((\<forall>i j. nd_id (serialize i) = nd_id (serialize j) \<longrightarrow>
                  nd_distance (serialize i) = nd_distance (serialize j)) \<longrightarrow>
          (\<forall>l\<in>set (fg_links g). \<forall>s\<in>set (fg_nodes g). \<forall>t\<in>set (fg_nodes g).
             gn_id s = gl_source l \<and> gn_id t = gl_target l \<longrightarrow>
             nd_distance (serialize (gn_index t)) = nd_distance (serialize (gn_index s)) + 1))"
proof -
  from createForceGraph_built [OF assms(1)] obtain leak
    where g: "g = leak_graph config serialize leak"
    by blast
  from traverse_inv [of serialize config leak]
  have links: "\<forall>l\<in>set (fg_links g). link_ok serialize l"
    by (simp add: g leak_graph_identity trav_inv_def list_all_iff)
  have nodes: "\<exists>i. gn_id n = nd_id (serialize i) \<and> gn_index n = nd_index (serialize i)"
    if "n \<in> set (fg_nodes g)" for n
    using leak_graph_nodes that unfolding g by blast
  have idx: "nd_distance (serialize (gl_targetIndex l))
      = nd_distance (serialize (gl_sourceIndex l)) + 1" if "l \<in> set (fg_links g)" for l
  proof -
    from links that obtain p c where
      "gl_sourceIndex l = nd_index (serialize p)" "gl_targetIndex l = nd_index (serialize c)"
      "nd_distance (serialize c) = 1 + nd_distance (serialize p)"
      unfolding link_ok_def by blast
    with assms(2) show ?thesis by simp
  qed
  have byid: "nd_distance (serialize (gn_index t)) = nd_distance (serialize (gn_index s)) + 1"
    if one: "\<forall>i j. nd_id (serialize i) = nd_id (serialize j) \<longrightarrow>
                 nd_distance (serialize i) = nd_distance (serialize j)"
      and l: "l \<in> set (fg_links g)" and s: "s \<in> set (fg_nodes g)" and t: "t \<in> set (fg_nodes g)"
      and ids: "gn_id s = gl_source l" "gn_id t = gl_target l" for l s t
  proof -
    from links l obtain p c where pc:
      "gl_source l = nd_id (serialize p)" "gl_target l = nd_id (serialize c)"
      "nd_distance (serialize c) = 1 + nd_distance (serialize p)"
      unfolding link_ok_def by blast
    from nodes [OF s] assms(2) have "gn_id s = nd_id (serialize (gn_index s))" by auto
    with ids(1) pc(1) have "nd_id (serialize (gn_index s)) = nd_id (serialize p)" by simp
    with one have ds: "nd_distance (serialize (gn_index s)) = nd_distance (serialize p)"
      by blast
    from nodes [OF t] assms(2) have "gn_id t = nd_id (serialize (gn_index t))" by auto
    with ids(2) pc(2) have "nd_id (serialize (gn_index t)) = nd_id (serialize c)" by simp
    with one have "nd_distance (serialize (gn_index t)) = nd_distance (serialize c)"
      by blast
    with ds pc(3) show ?thesis by simp
  qed
  from idx byid show ?thesis by blast
qed

text \<open>In the example both links go from distance \<open>d\<close> to distance \<open>d + 1\<close>.\<close>

theorem link_distance_witness:
  "snd (createForceGraph ex_config Map.empty ex_serialize [ex_leak]) ''Leak::@5'' = Some ex_graph \<and>
   (\<forall>i. nd_index (ex_serialize i) = i) \<and>
   gl_sourceIndex (fg_links ex_graph ! 1) = 6 \<and>
   gl_targetIndex (fg_links ex_graph ! 1) = 7 \<and>
   nd_distance (ex_serialize 7) = nd_distance (ex_serialize 6) + 1 \<and>
   gn_id (fg_nodes ex_graph ! 1) = gl_source (fg_links ex_graph ! 1) \<and>
   gn_id (fg_nodes ex_graph ! 2) = gl_target (fg_links ex_graph ! 1) \<and>
   nd_distance (ex_serialize (gn_index (fg_nodes ex_graph ! 2)))
     = nd_distance (ex_serialize (gn_index (fg_nodes ex_graph ! 1))) + 1"
proof -
  have h: "\<forall>i. nd_index (ex_serialize i) = i"
    by (simp add: ex_serialize_def)
  have one: "\<forall>i j. nd_id (ex_serialize i) = nd_id (ex_serialize j) \<longrightarrow>
      nd_distance (ex_serialize i) = nd_distance (ex_serialize j)"
    by (simp add: ex_serialize_def)
  have l: "fg_links ex_graph ! 1 \<in> set (fg_links ex_graph)"
    and n1: "fg_nodes ex_graph ! 1 \<in> set (fg_nodes ex_graph)"
    and n2: "fg_nodes ex_graph ! 2 \<in> set (fg_nodes ex_graph)"
    by (simp_all add: ex_graph_def)
  have s: "gl_sourceIndex (fg_links ex_graph ! 1) = 6"
    and t: "gl_targetIndex (fg_links ex_graph ! 1) = 7"
    and ids: "gn_id (fg_nodes ex_graph ! 1) = gl_source (fg_links ex_graph ! 1)"
      "gn_id (fg_nodes ex_graph ! 2) = gl_target (fg_links ex_graph ! 1)"
    by (simp_all add: ex_graph_def)
  note ld = link_distance [OF ex_build h]
  from ld l
  have "nd_distance (ex_serialize (gl_targetIndex (fg_links ex_graph ! 1)))
      = nd_distance (ex_serialize (gl_sourceIndex (fg_links ex_graph ! 1))) + 1"
    by blast
  then have d: "nd_distance (ex_serialize 7) = nd_distance (ex_serialize 6) + 1"
    unfolding s t .
  from ld one l n1 n2 ids
  have "nd_distance (ex_serialize (gn_index (fg_nodes ex_graph ! 2)))
     = nd_distance (ex_serialize (gn_index (fg_nodes ex_graph ! 1))) + 1"
    by blast
  with ex_build h s t d ids show ?thesis by blast
qed

section \<open>The one-hop scenario\<close>

lemma visit_parent_fresh:
  "nd_id (serialize index) \<notin> tr_isRecorded st \<Longrightarrow>
   visit_parent config serialize leak rootDistance distanceDisplay st index =
     foldl (visit_child config serialize rootDistance distanceDisplay (serialize index))
       (st\<lparr>tr_isRecorded := insert (nd_id (serialize index)) (tr_isRecorded st),
           tr_nodes := tr_nodes st @
             [\<lparr>gn_index = nd_index (serialize index), gn_name = nd_id (serialize index),
               gn_isMain = Some (lp_index leak = nd_index (serialize index)),
               gn_id = nd_id (serialize index),
               gn_size = (if lp_index leak = nd_index (serialize index) then 40 else 30),
               gn_category = (if lp_index leak = nd_index (serialize index) then 0 else 1),
               gn_ignore = (\<not> lp_index leak = nd_index (serialize index)), gn_flag = True,
               gn_label = None, gn_symbolSize = None\<rparr>]\<rparr>)
       (filter (\<lambda>item. nd_distance (serialize (c_index item)) = 1 + nd_distance (serialize index))
          (nd_children (serialize index)))"
  by (simp add: visit_parent_def Let_def)

lemma boundary_traverse:
  assumes lim: "distance_limit config = 1"
    and leak: "lp_index leak = 5"
    and i5: "nd_index (serialize 5) = 5"
    and kids: "filter (\<lambda>item. nd_distance (serialize (c_index item)) = 1 + nd_distance (serialize 5))
                 (nd_children (serialize 5)) = [child]"
    and c6: "c_index child = 6"
    and ids: "nd_id (serialize 6) \<noteq> nd_id (serialize 5)"
  shows "traverse config serialize leak =
     (let seed = (5, \<lparr>be_id = nd_id (serialize 5), be_source = None, be_sourceId = None,
                       be_distance = None, be_retainedSize = nd_retainedSize (serialize 5)\<rparr>)
      in \<lparr>tr_nodes =
           [\<lparr>gn_index = 5, gn_name = nd_id (serialize 5), gn_isMain = Some True,
             gn_id = nd_id (serialize 5), gn_size = 40, gn_category = 0, gn_ignore = False,
             gn_flag = True, gn_label = None, gn_symbolSize = None\<rparr>,
            \<lparr>gn_index = nd_index (serialize 6), gn_name = nd_id (serialize 6), gn_isMain = None,
             gn_id = nd_id (serialize 6), gn_size = 30, gn_category = 1, gn_ignore = True,
             gn_flag = True, gn_label = None, gn_symbolSize = None\<rparr>],
          tr_links =
           [\<lparr>gl_source = nd_id (serialize 5), gl_target = nd_id (serialize 6),
             gl_sourceIndex = 5, gl_targetIndex = nd_index (serialize 6),
             gl_name_or_index = c_name_or_index child\<rparr>],
          tr_biggestList =
            (if biggest_eligible config (nd_distance (serialize 5)) [seed] (serialize 5) (serialize 6)
             then [seed,
                   (6, \<lparr>be_id = nd_id (serialize 6), be_source = Some 5,
                        be_sourceId = Some (nd_id (serialize 5)),
                        be_distance = Some (nd_distance (serialize 6)),
                        be_retainedSize = nd_retainedSize (serialize 6)\<rparr>)]
             else [seed]),
          tr_isRecorded = {nd_id (serialize 6), nd_id (serialize 5)},
          tr_tmpIndexArr = [6]\<rparr>)"
proof -
  define st0 where "st0 =
      \<lparr>tr_nodes = [], tr_links = [],
       tr_biggestList = [(5, \<lparr>be_id = nd_id (serialize 5), be_source = None, be_sourceId = None,
                      be_distance = None, be_retainedSize = nd_retainedSize (serialize 5)\<rparr>)],
       tr_isRecorded = {}, tr_tmpIndexArr = []\<rparr>\<lparr>tr_tmpIndexArr := []\<rparr>"
  have fresh: "nd_id (serialize 5) \<notin> tr_isRecorded st0"
    by (simp add: st0_def)
  note vp = visit_parent_fresh [where serialize = serialize and index = 5 and st = st0, OF fresh]
  have hop: "foldl (visit_parent config serialize leak (nd_distance (serialize 5)) 1) st0 [5] =
      visit_child config serialize (nd_distance (serialize 5)) 1 (serialize 5)
        (st0\<lparr>tr_isRecorded := insert (nd_id (serialize 5)) (tr_isRecorded st0),
             tr_nodes := tr_nodes st0 @
               [\<lparr>gn_index = nd_index (serialize 5), gn_name = nd_id (serialize 5),
                 gn_isMain = Some (lp_index leak = nd_index (serialize 5)),
                 gn_id = nd_id (serialize 5),
                 gn_size = (if lp_index leak = nd_index (serialize 5) then 40 else 30),
                 gn_category = (if lp_index leak = nd_index (serialize 5) then 0 else 1),
                 gn_ignore = (\<not> lp_index leak = nd_index (serialize 5)), gn_flag = True,
                 gn_label = None, gn_symbolSize = None\<rparr>]\<rparr>) child"
    unfolding foldl.simps vp kids by simp
  have loop: "traverse config serialize leak =
      foldl (visit_parent config serialize leak (nd_distance (serialize 5)) 1) st0 [5]"
    unfolding traverse_def leak st0_def
    by (subst bfs_while_step, simp, simp add: lim, subst bfs_while_done, simp add: lim, simp)
  show ?thesis
    unfolding loop hop
    by (simp add: st0_def visit_child_def Let_def lim c6 ids i5 leak insert_commute)
qed

lemma boundary_graph:
  assumes lim: "distance_limit config = 1"
    and leak: "lp_index leak = 5"
    and i5: "nd_index (serialize 5) = 5"
    and i6: "nd_index (serialize 6) = 6"
    and kids: "filter (\<lambda>item. nd_distance (serialize (c_index item)) = 1 + nd_distance (serialize 5))
                 (nd_children (serialize 5)) = [child]"
    and c6: "c_index child = 6"
    and ids: "nd_id (serialize 6) \<noteq> nd_id (serialize 5)"
  shows "leak_graph config serialize leak =
     (let pre_expanded =
            biggest_eligible config (nd_distance (serialize 5))
              [(5, \<lparr>be_id = nd_id (serialize 5), be_source = None, be_sourceId = None,
                    be_distance = None, be_retainedSize = nd_retainedSize (serialize 5)\<rparr>)]
              (serialize 5) (serialize 6)
      in \<lparr>fg_nodes =
           [\<lparr>gn_index = 5, gn_name = nd_id (serialize 5), gn_isMain = Some True,
             gn_id = nd_id (serialize 5), gn_size = 40, gn_category = 0, gn_ignore = False,
             gn_flag = False, gn_label = Some (nd_id (serialize 5)), gn_symbolSize = Some 40\<rparr>,
            \<lparr>gn_index = 6, gn_name = nd_id (serialize 6), gn_isMain = None,
             gn_id = nd_id (serialize 6), gn_size = 30,
             gn_category = (if pre_expanded then 0 else 1), gn_ignore = False,
             gn_flag = (\<not> pre_expanded), gn_label = Some (nd_id (serialize 6)),
             gn_symbolSize = Some 30\<rparr>],
          fg_links =
           [\<lparr>gl_source = nd_id (serialize 5), gl_target = nd_id (serialize 6),
             gl_sourceIndex = 5, gl_targetIndex = 6,
             gl_name_or_index = c_name_or_index child\<rparr>],
          fg_index = Some 5\<rparr>)"
proof -
  note tr = boundary_traverse [OF lim leak i5 kids c6 ids]
  from ids have ids': "nd_id (serialize 5) \<noteq> nd_id (serialize 6)" by simp
  show ?thesis
    unfolding leak_graph_def tr
    by (simp add: Let_def object_keys_def expand_biggest_def catchNode_def toggle_eval
        i6 ids ids' leak)
qed

section \<open>Claim about the one-hop scenario\<close>

text \<open>
  C6 (as amended). With \<open>distance_limit = 1\<close> and a leak point at index 5 whose only
  retained child is index 6 (another object, at distance \<open>rootDistance + 1\<close>), the graph
  stored by \<^verbatim>\<open>createForceGraph\<close> has exactly two nodes, of indices 5 and 6, and exactly
  one link, from 5 to 6. Node 6 is emitted on the boundary hop with \<open>ignore = true\<close>
  (hop 1 is not hop 2); the pre-expansion of the leak point, which is always in
  \<open>biggestList\<close>, then reveals it, so in the returned graph node 6 has \<open>ignore = false\<close>.
\<close>

theorem boundary_scenario:
  assumes "distance_limit config = 1"
    and "lp_index leak = 5"
    and "nd_index (serialize 5) = 5"
    and "nd_index (serialize 6) = 6"
    and "filter (\<lambda>item. nd_distance (serialize (c_index item)) = 1 + nd_distance (serialize 5))
           (nd_children (serialize 5)) = [child]"
    and "c_index child = 6"
    and "nd_id (serialize 6) \<noteq> nd_id (serialize 5)"
  shows "snd (createForceGraph config heapUsed serialize [leak])
             (nd_name (serialize 5) @ ''::'' @ nd_id (serialize 5))
           = Some (leak_graph config serialize leak) \<and>
         map gn_index (tr_nodes (traverse config serialize leak)) = [5, 6] \<and>
         map gn_ignore (tr_nodes (traverse config serialize leak)) = [False, True] \<and>
         map gn_index (fg_nodes (leak_graph config serialize leak)) = [5, 6] \<and>
         map gn_id (fg_nodes (leak_graph config serialize leak))
           = [nd_id (serialize 5), nd_id (serialize 6)] \<and>
         map gn_ignore (fg_nodes (leak_graph config serialize leak)) = [False, False] \<and>
         fg_links (leak_graph config serialize leak)
           = [\<lparr>gl_source = nd_id (serialize 5), gl_target = nd_id (serialize 6),
               gl_sourceIndex = 5, gl_targetIndex = 6,
               gl_name_or_index = c_name_or_index child\<rparr>]"
proof -
  have built: "snd (createForceGraph config heapUsed serialize [leak])
             (nd_name (serialize 5) @ ''::'' @ nd_id (serialize 5))
           = Some (leak_graph config serialize leak)"
    by (simp add: createForceGraph_def leak_iteration_snd assms(2))
  note tr = boundary_traverse [OF assms(1,2,3,5,6,7)]
  note gr = boundary_graph [OF assms]
  have "map gn_index (tr_nodes (traverse config serialize leak)) = [5, 6]"
    and "map gn_ignore (tr_nodes (traverse config serialize leak)) = [False, True]"
    unfolding tr by (simp_all add: Let_def assms(4))
  moreover have "map gn_index (fg_nodes (leak_graph config serialize leak)) = [5, 6]"
    and "map gn_id (fg_nodes (leak_graph config serialize leak))
           = [nd_id (serialize 5), nd_id (serialize 6)]"
    and "map gn_ignore (fg_nodes (leak_graph config serialize leak)) = [False, False]"
    and "fg_links (leak_graph config serialize leak)
           = [\<lparr>gl_source = nd_id (serialize 5), gl_target = nd_id (serialize 6),
               gl_sourceIndex = 5, gl_targetIndex = 6,
               gl_name_or_index = c_name_or_index child\<rparr>]"
    unfolding gr by (simp_all add: Let_def)
  ultimately show ?thesis using built by blast
qed

lemma boundary_example:
  "distance_limit boundary_config = 1"
  "lp_index ex_leak = 5"
  "nd_index (ex_serialize 5) = 5"
  "nd_index (ex_serialize 6) = 6"
  "filter (\<lambda>item. nd_distance (ex_serialize (c_index item)) = 1 + nd_distance (ex_serialize 5))
     (nd_children (ex_serialize 5)) = [\<lparr>c_index = 6, c_name_or_index = ''a''\<rparr>]"
  "c_index \<lparr>c_index = 6, c_name_or_index = ''a''\<rparr> = 6"
  "nd_id (ex_serialize 6) \<noteq> nd_id (ex_serialize 5)"
  by (simp_all add: boundary_config_def ex_leak_def ex_serialize_def)

text \<open>The example snapshot, cut at one hop.\<close>

theorem boundary_scenario_witness:
  "distance_limit boundary_config = 1 \<and> lp_index ex_leak = 5 \<and>
   nd_index (ex_serialize 5) = 5 \<and> nd_index (ex_serialize 6) = 6 \<and>
   filter (\<lambda>item. nd_distance (ex_serialize (c_index item)) = 1 + nd_distance (ex_serialize 5))
     (nd_children (ex_serialize 5)) = [\<lparr>c_index = 6, c_name_or_index = ''a''\<rparr>] \<and>
   nd_id (ex_serialize 6) \<noteq> nd_id (ex_serialize 5) \<and>
   snd (createForceGraph boundary_config Map.empty ex_serialize [ex_leak]) ''Leak::@5''
     = Some (leak_graph boundary_config ex_serialize ex_leak) \<and>
   map gn_index (fg_nodes (leak_graph boundary_config ex_serialize ex_leak)) = [5, 6] \<and>
   map gn_ignore (tr_nodes (traverse boundary_config ex_serialize ex_leak)) = [False, True] \<and>
   map gn_ignore (fg_nodes (leak_graph boundary_config ex_serialize ex_leak)) = [False, False] \<and>
   fg_links (leak_graph boundary_config ex_serialize ex_leak)
     = [\<lparr>gl_source = ''@5'', gl_target = ''@6'', gl_sourceIndex = 5, gl_targetIndex = 6,
         gl_name_or_index = ''a''\<rparr>]"
proof -
  have nm: "nd_name (ex_serialize 5) = ''Leak''"
    and id5: "nd_id (ex_serialize 5) = ''@5''" and id6: "nd_id (ex_serialize 6) = ''@6''"
    by (simp_all add: ex_serialize_def)
  from boundary_scenario [OF boundary_example, of Map.empty] boundary_example
  show ?thesis
    unfolding nm id5 id6 by simp
qed

text \<open>
  C6 as stated fails: with \<open>distance_limit = 1\<close> node 6 of the returned graph does not
  have \<open>ignore = true\<close>.
\<close>

theorem boundary_scenario_counterexample:
  "distance_limit boundary_config = 1 \<and>
   snd (createForceGraph boundary_config Map.empty ex_serialize [ex_leak]) ''Leak::@5''
     = Some (leak_graph boundary_config ex_serialize ex_leak) \<and>
   gn_index (fg_nodes (leak_graph boundary_config ex_serialize ex_leak) ! 1) = 6 \<and>
   gn_ignore (fg_nodes (leak_graph boundary_config ex_serialize ex_leak) ! 1) = False"
proof -
  have "snd (createForceGraph boundary_config Map.empty ex_serialize [ex_leak]) ''Leak::@5''
     = Some (leak_graph boundary_config ex_serialize ex_leak)"
    by (simp add: createForceGraph_def leak_iteration_snd) (simp add: ex_serialize_def ex_leak_def)
  moreover note boundary_graph [OF boundary_example]
  ultimately show ?thesis
    by (simp add: Let_def boundary_config_def)
qed

section \<open>The biggest retainers\<close>

lemma js_ratio:
  assumes "0 < b" and "0 < c"
  shows "js_gt (js_div a b) (js_div 1 c) \<longleftrightarrow> b < a * c"
proof -
  have "(1 / of_int c < (of_int a :: rat) / of_int b) \<longleftrightarrow> (of_int b :: rat) < of_int a * of_int c"
    using assms by (simp add: field_simps)
  also have "\<dots> \<longleftrightarrow> b < a * c"
    by (metis of_int_less_iff of_int_mult)
  finally show ?thesis
    using assms by (simp add: js_div_def)
qed

lemma visit_child_biggestList:
  "tr_biggestList (visit_child config serialize rootDistance distanceDisplay nodeDetail st child) =
     (if biggest_eligible config rootDistance (tr_biggestList st) nodeDetail (serialize (c_index child))
      then AList.update (c_index child)
             \<lparr>be_id = nd_id (serialize (c_index child)), be_source = Some (nd_index nodeDetail),
              be_sourceId = Some (nd_id nodeDetail),
              be_distance = Some (nd_distance (serialize (c_index child))),
              be_retainedSize = nd_retainedSize (serialize (c_index child))\<rparr>
             (tr_biggestList st)
      else tr_biggestList st)"
  by (simp add: visit_child_def Let_def)

lemma visit_child_recorded:
  "c_index child \<in> fst ` set (tr_biggestList
       (visit_child config serialize rootDistance distanceDisplay nodeDetail st child)) \<longleftrightarrow>
     c_index child \<in> fst ` set (tr_biggestList st) \<or>
     (\<bar>rootDistance - nd_distance (serialize (c_index child))\<bar> < leak_limit config \<and>
      (\<exists>parent. map_of (tr_biggestList st) (nd_index nodeDetail) = Some parent \<and>
         js_gt (js_div (nd_retainedSize (serialize (c_index child))) (be_retainedSize parent))
               (js_div 1 (node_limit config))))"
  unfolding visit_child_biggestList
  by (auto simp: dom_update biggest_eligible_def split: option.splits)

lemma visit_child_others:
  "k \<noteq> c_index child \<Longrightarrow>
   map_of (tr_biggestList
      (visit_child config serialize rootDistance distanceDisplay nodeDetail st child)) k
     = map_of (tr_biggestList st) k"
  unfolding visit_child_biggestList by (simp add: update_conv')

lemma visit_child_small:
  assumes "map_of (tr_biggestList st) (nd_index nodeDetail) = Some parent"
    and "0 < node_limit config" and "0 < be_retainedSize parent"
    and "nd_retainedSize (serialize (c_index child)) * node_limit config \<le> be_retainedSize parent"
  shows "tr_biggestList (visit_child config serialize rootDistance distanceDisplay nodeDetail st child)
           = tr_biggestList st"
  unfolding visit_child_biggestList
  using assms by (simp add: biggest_eligible_def js_ratio)

lemma retained_by_mono:
  "retained_by config serialize rootDistance keys p k \<Longrightarrow> keys \<subseteq> keys' \<Longrightarrow>
   retained_by config serialize rootDistance keys' p k"
  unfolding retained_by_def by blast

lemma visit_child_nodes:
  "n \<in> set (tr_nodes (visit_child config serialize rootDistance distanceDisplay nodeDetail st child))
   \<Longrightarrow> n \<in> set (tr_nodes st) \<or> (gn_flag n \<and> gn_category n = 1)"
  by (auto simp: visit_child_def Let_def split: if_splits)

lemma visit_child_biggest_inv:
  assumes inv: "biggest_inv config serialize leak rootDistance st"
    and child: "child \<in> set (nd_children (serialize i))"
    and dist: "nd_distance (serialize (c_index child)) = 1 + nd_distance (serialize i)"
  shows "biggest_inv config serialize leak rootDistance
           (visit_child config serialize rootDistance distanceDisplay (serialize i) st child)"
proof -
  define st1 where
    "st1 = visit_child config serialize rootDistance distanceDisplay (serialize i) st child"
  define c where "c = c_index child"
  define keys where "keys = fst ` set (tr_biggestList st)"
  from inv have leak: "lp_index leak \<in> keys"
    and old: "\<And>k e. map_of (tr_biggestList st) k = Some e \<Longrightarrow>
        be_retainedSize e = nd_retainedSize (serialize k) \<and>
        (k = lp_index leak \<or> (\<exists>p. retained_by config serialize rootDistance keys p k))"
    and flags: "\<And>n. n \<in> set (tr_nodes st) \<Longrightarrow>
        gn_flag n \<and> (gn_category n = 1 \<or> gn_index n = lp_index leak)"
    unfolding biggest_inv_def keys_def by blast+
  have nodes: "gn_flag n \<and> (gn_category n = 1 \<or> gn_index n = lp_index leak)"
    if "n \<in> set (tr_nodes st1)" for n
    using visit_child_nodes [OF that [unfolded st1_def]] flags by blast
  show ?thesis
  proof (cases "biggest_eligible config rootDistance (tr_biggestList st) (serialize i) (serialize c)")
    case False
    then have "tr_biggestList st1 = tr_biggestList st"
      unfolding st1_def visit_child_biggestList c_def by simp
    with inv nodes show ?thesis
      unfolding biggest_inv_def st1_def [symmetric] by auto
  next
    case True
    define entry where "entry =
        \<lparr>be_id = nd_id (serialize c), be_source = Some (nd_index (serialize i)),
         be_sourceId = Some (nd_id (serialize i)),
         be_distance = Some (nd_distance (serialize c)),
         be_retainedSize = nd_retainedSize (serialize c)\<rparr>"
    from True have bl1: "tr_biggestList st1 = AList.update c entry (tr_biggestList st)"
      unfolding st1_def visit_child_biggestList c_def entry_def by simp
    have keys1: "fst ` set (tr_biggestList st1) = insert c keys"
      unfolding bl1 keys_def by (simp add: dom_update)
    from True obtain parent where
      parent: "map_of (tr_biggestList st) (nd_index (serialize i)) = Some parent"
      and near: "\<bar>rootDistance - nd_distance (serialize c)\<bar> < leak_limit config"
      and big: "js_gt (js_div (nd_retainedSize (serialize c)) (be_retainedSize parent))
                      (js_div 1 (node_limit config))"
      unfolding biggest_eligible_def by (auto split: option.splits)
    from old [OF parent] have
      psize: "be_retainedSize parent = nd_retainedSize (serialize (nd_index (serialize i)))"
      by simp
    from parent have pkey: "nd_index (serialize i) \<in> keys"
      unfolding keys_def by (metis map_of_SomeD fst_conv image_eqI)
    have new: "retained_by config serialize rootDistance (insert c keys) (nd_index (serialize i)) c"
      unfolding retained_by_def
      using pkey child dist near big psize c_def by auto
    have entries: "be_retainedSize e = nd_retainedSize (serialize k) \<and>
        (k = lp_index leak \<or>
         (\<exists>p. retained_by config serialize rootDistance (insert c keys) p k))"
      if "map_of (tr_biggestList st1) k = Some e" for k e
    proof (cases "k = c")
      case True
      with that have "e = entry" unfolding bl1 by (simp add: update_conv')
      with True new show ?thesis by (auto simp: entry_def)
    next
      case False
      with that have "map_of (tr_biggestList st) k = Some e"
        unfolding bl1 by (simp add: update_conv')
      from old [OF this] show ?thesis
        by (blast intro: retained_by_mono)
    qed
    show ?thesis
      unfolding biggest_inv_def st1_def [symmetric] keys1
      using leak entries nodes by blast
  qed
qed

lemma visit_parent_biggest_inv:
  assumes inv: "biggest_inv config serialize leak rootDistance st"
  shows "biggest_inv config serialize leak rootDistance
           (visit_parent config serialize leak rootDistance distanceDisplay st index)"
proof (cases "nd_id (serialize index) \<in> tr_isRecorded st")
  case True
  with inv show ?thesis by (simp add: visit_parent_def Let_def)
next
  case False
  define st1 where "st1 = st\<lparr>tr_isRecorded := insert (nd_id (serialize index)) (tr_isRecorded st),
      tr_nodes := tr_nodes st @
        [\<lparr>gn_index = nd_index (serialize index), gn_name = nd_id (serialize index),
          gn_isMain = Some (lp_index leak = nd_index (serialize index)),
          gn_id = nd_id (serialize index),
          gn_size = (if lp_index leak = nd_index (serialize index) then 40 else 30),
          gn_category = (if lp_index leak = nd_index (serialize index) then 0 else 1),
          gn_ignore = (\<not> lp_index leak = nd_index (serialize index)), gn_flag = True,
          gn_label = None, gn_symbolSize = None\<rparr>]\<rparr>"
  from inv have inv1: "biggest_inv config serialize leak rootDistance st1"
    unfolding biggest_inv_def st1_def by auto
  have "biggest_inv config serialize leak rootDistance
      (foldl (visit_child config serialize rootDistance distanceDisplay (serialize index)) st1
         (filter (\<lambda>item. nd_distance (serialize (c_index item)) = 1 + nd_distance (serialize index))
            (nd_children (serialize index))))"
    using inv1
    by (rule foldl_invariant [where P = "biggest_inv config serialize leak rootDistance"])
       (simp add: visit_child_biggest_inv)
  then show ?thesis
    unfolding visit_parent_fresh [where serialize = serialize and index = index and st = st, OF False]
      st1_def .
qed

lemma bfs_while_biggest_inv:
  "biggest_inv config serialize leak rootDistance st \<Longrightarrow>
   biggest_inv config serialize leak rootDistance
     (bfs_while config serialize leak rootDistance leakIndexList distanceDisplay st)"
proof (induction config serialize leak rootDistance leakIndexList distanceDisplay st
    rule: bfs_while.induct)
  case (1 config serialize leak rootDistance leakIndexList distanceDisplay st)
  show ?case
  proof (cases "leakIndexList \<noteq> [] \<and> distanceDisplay \<le> distance_limit config")
    case True
    define st' where "st' = foldl (visit_parent config serialize leak rootDistance distanceDisplay)
        (st\<lparr>tr_tmpIndexArr := []\<rparr>) leakIndexList"
    from "1.prems" have "biggest_inv config serialize leak rootDistance (st\<lparr>tr_tmpIndexArr := []\<rparr>)"
      by (simp add: biggest_inv_def)
    then have "biggest_inv config serialize leak rootDistance st'"
      unfolding st'_def
      by (rule foldl_invariant [where P = "biggest_inv config serialize leak rootDistance"])
         (rule visit_parent_biggest_inv)
    with True "1.IH" [OF True st'_def] have
      "biggest_inv config serialize leak rootDistance
         (bfs_while config serialize leak rootDistance (tr_tmpIndexArr st') (distanceDisplay + 1) st')"
      by simp
    with True show ?thesis
      by (simp add: bfs_while_step st'_def)
  next
    case False
    then have "leakIndexList = [] \<or> distance_limit config < distanceDisplay" by auto
    with "1.prems" show ?thesis by (simp add: bfs_while_done)
  qed
qed

lemma traverse_biggest_inv:
  "biggest_inv config serialize leak (nd_distance (serialize (lp_index leak)))
     (traverse config serialize leak)"
  unfolding traverse_def
  by (rule bfs_while_biggest_inv) (simp add: biggest_inv_def)

lemma catchNode_Some:
  "catchNode nodes key v = Some data \<Longrightarrow> data \<in> set nodes \<and> key data = v"
proof -
  assume "catchNode nodes key v = Some data"
  then obtain rest where "filter (\<lambda>item. key item = v) nodes = data # rest"
    by (auto simp: catchNode_def split: list.splits)
  then have "data \<in> set (filter (\<lambda>item. key item = v) nodes)" by simp
  then show ?thesis by simp
qed

lemma setExpandOff_shape:
  "\<exists>own other T. fg_nodes (setExpandOff g data) =
      map (\<lambda>n. if gn_id n = gn_id data then own n else if gn_id n \<in> T then other n else n)
        (fg_nodes g) \<and>
      (\<forall>n. gn_index (own n) = gn_index n) \<and>
      (\<forall>n. gn_index (other n) = gn_index n \<and> gn_flag (other n) \<and>
            gn_category (other n) = gn_category n)"
proof (cases "gn_flag data")
  case True
  show ?thesis
    by (rule exI [of _ mark_expanded], rule exI [of _ reveal],
        rule exI [of _ "set (expand_linksNodes (fg_links g) (gn_id data))"])
       (simp add: expand_nodes [OF True] mark_expanded_def reveal_def)
next
  case False
  show ?thesis
    by (rule exI [of _ mark_collapsed], rule exI [of _ hide],
        rule exI [of _ "set (collapse_linksNodes (fg_links g) (gn_id data) [])"])
       (simp add: collapse_nodes [OF False] mark_collapsed_def hide_def)
qed

lemma setExpandOff_untouched:
  assumes inv: "untouched keys (fg_nodes g)"
    and data: "data \<in> set (fg_nodes g)" and key: "gn_index data \<in> keys"
  shows "untouched keys (fg_nodes (setExpandOff g data))"
proof -
  from inv have dist: "distinct (map gn_id (fg_nodes g))"
    and old: "\<And>n. n \<in> set (fg_nodes g) \<Longrightarrow> gn_index n \<notin> keys \<Longrightarrow>
        gn_flag n \<and> gn_category n = 1"
    unfolding untouched_def by blast+
  from dist have inj: "inj_on gn_id (set (fg_nodes g))"
    by (simp add: distinct_map)
  obtain own other T where
    shape: "fg_nodes (setExpandOff g data) =
      map (\<lambda>n. if gn_id n = gn_id data then own n else if gn_id n \<in> T then other n else n)
        (fg_nodes g)"
    and own: "\<And>n. gn_index (own n) = gn_index n"
    and other: "\<And>n. gn_index (other n) = gn_index n \<and> gn_flag (other n) \<and>
            gn_category (other n) = gn_category n"
    using setExpandOff_shape [of g data] by blast
  have "gn_flag n' \<and> gn_category n' = 1"
    if n': "n' \<in> set (fg_nodes (setExpandOff g data))" and out: "gn_index n' \<notin> keys" for n'
  proof -
    from n' obtain n where n: "n \<in> set (fg_nodes g)"
      and eq: "n' = (if gn_id n = gn_id data then own n else if gn_id n \<in> T then other n else n)"
      unfolding shape by auto
    show ?thesis
    proof (cases "gn_id n = gn_id data")
      case True
      with inj n data have "n = data" by (auto dest: inj_onD)
      with True eq own key out show ?thesis by simp
    next
      case False
      show ?thesis
      proof (cases "gn_id n \<in> T")
        case True
        with False eq have e: "n' = other n" by simp
        with out other have "gn_index n \<notin> keys" by simp
        from old [OF n this] e other show ?thesis by simp
      next
        case nT: False
        with False eq have "n' = n" by simp
        with old [OF n] out show ?thesis by simp
      qed
    qed
  qed
  moreover have "distinct (map gn_id (fg_nodes (setExpandOff g data)))"
    using dist by (simp add: setExpandOff_identity)
  ultimately show ?thesis unfolding untouched_def by blast
qed

lemma expand_biggest_untouched:
  "untouched K (fg_nodes g) \<Longrightarrow> set keys \<subseteq> K \<Longrightarrow>
   untouched K (fg_nodes (expand_biggest g keys))"
proof (induction keys arbitrary: g)
  case Nil
  then show ?case by (simp add: expand_biggest_def)
next
  case (Cons k keys)
  from Cons.prems(2) have k: "k \<in> K" and rest: "set keys \<subseteq> K" by simp_all
  have "untouched K (fg_nodes (case catchNode (fg_nodes g) gn_index k of
                       None \<Rightarrow> g
                     | Some data \<Rightarrow> setExpandOff g data))"
  proof (cases "catchNode (fg_nodes g) gn_index k")
    case None
    with Cons.prems(1) show ?thesis by simp
  next
    case (Some data)
    from catchNode_Some [OF Some] k have "data \<in> set (fg_nodes g)" "gn_index data \<in> K"
      by simp_all
    with Cons.prems(1) Some show ?thesis by (simp add: setExpandOff_untouched)
  qed
  then show ?case
    unfolding expand_biggest_Cons using rest by (rule Cons.IH)
qed

lemma leak_graph_untouched:
  assumes "n \<in> set (fg_nodes (leak_graph config serialize leak))"
    and "gn_index n \<notin> fst ` set (tr_biggestList (traverse config serialize leak))"
  shows "gn_flag n \<and> gn_category n = 1"
proof -
  define st where "st = traverse config serialize leak"
  define K where "K = fst ` set (tr_biggestList st)"
  define g1 where "g1 = expand_biggest
      \<lparr>fg_nodes = tr_nodes st, fg_links = tr_links st, fg_index = None\<rparr>
      (object_keys (tr_biggestList st))"
  have "distinct (map gn_id (tr_nodes st))"
    using traverse_inv [of serialize config leak] by (simp add: trav_inv_def st_def)
  moreover have "gn_flag m \<and> gn_category m = 1"
    if "m \<in> set (tr_nodes st)" "gn_index m \<notin> K" for m
    using traverse_biggest_inv [of config serialize leak] that
    unfolding biggest_inv_def st_def [symmetric] K_def [symmetric] by auto
  ultimately have "untouched K (fg_nodes \<lparr>fg_nodes = tr_nodes st, fg_links = tr_links st,
      fg_index = None\<rparr>)"
    unfolding untouched_def by simp
  moreover have "set (object_keys (tr_biggestList st)) \<subseteq> K"
    by (simp add: object_keys_def K_def)
  ultimately have u: "untouched K (fg_nodes g1)"
    unfolding g1_def by (rule expand_biggest_untouched)
  have "fg_nodes (leak_graph config serialize leak) =
      map (\<lambda>node. node\<lparr>gn_label := Some (gn_name node), gn_symbolSize := Some (gn_size node)\<rparr>)
        (fg_nodes g1)"
    by (simp add: leak_graph_def Let_def g1_def st_def)
  with assms(1) obtain m where m: "m \<in> set (fg_nodes g1)"
    and n: "n = m\<lparr>gn_label := Some (gn_name m), gn_symbolSize := Some (gn_size m)\<rparr>"
    by auto
  from n assms(2) have "gn_index m \<notin> K" by (simp add: K_def st_def)
  with u m have "gn_flag m \<and> gn_category m = 1" unfolding untouched_def by blast
  with n show ?thesis by simp
qed

section \<open>Claim about the biggest retainers\<close>

text \<open>
  C5 (as amended). At the visit of a child, the child's index is a key of \<open>biggestList\<close>
  afterwards if and only if it was one before, or the parent's index is itself a key of
  \<open>biggestList\<close> and \<open>|rootDistance - child.distance| < leakDistanceLimit\<close> and the
  child's retained size divided by the retained size recorded for the parent exceeds
  \<open>1 / childrenLimit\<close>. A child whose retained size is at most \<open>1 / childrenLimit\<close> of
  its recorded parent's leaves \<open>biggestList\<close> unchanged at that visit. After the
  traversal every key other than the leak point is retained in this sense by a recorded
  parent, and a node of the returned graph whose index is no key is never passed to the
  expand transition: it keeps \<open>flag = true\<close> and \<open>category = 1\<close>.
\<close>

theorem biggest_retainers:
  "(c_index child \<in> fst ` set (tr_biggestList
        (visit_child config serialize rootDistance distanceDisplay nodeDetail st child)) \<longleftrightarrow>
      c_index child \<in> fst ` set (tr_biggestList st) \<or>
      (\<bar>rootDistance - nd_distance (serialize (c_index child))\<bar> < leak_limit config \<and>
       (\<exists>parent. map_of (tr_biggestList st) (nd_index nodeDetail) = Some parent \<and>
          js_gt (js_div (nd_retainedSize (serialize (c_index child))) (be_retainedSize parent))
                (js_div 1 (node_limit config))))) \<and>
   (\<forall>parent.
      map_of (tr_biggestList st) (nd_index nodeDetail) = Some parent \<and>
      0 < node_limit config \<and> 0 < be_retainedSize parent \<and>
      nd_retainedSize (serialize (c_index child)) * node_limit config \<le> be_retainedSize parent \<longrightarrow>
      tr_biggestList (visit_child config serialize rootDistance distanceDisplay nodeDetail st child)
        = tr_biggestList st) \<and>
   (\<forall>k\<in>fst ` set (tr_biggestList (traverse config serialize leak)).
      k = lp_index leak \<or>
      (\<exists>p. retained_by config serialize (nd_distance (serialize (lp_index leak)))
             (fst ` set (tr_biggestList (traverse config serialize leak))) p k)) \<and>
   (\<forall>n\<in>set (fg_nodes (leak_graph config serialize leak)).
      gn_index n \<notin> fst ` set (tr_biggestList (traverse config serialize leak)) \<longrightarrow>
      gn_flag n \<and> gn_category n = 1)"
proof -
  have keys: "k = lp_index leak \<or>
      (\<exists>p. retained_by config serialize (nd_distance (serialize (lp_index leak)))
             (fst ` set (tr_biggestList (traverse config serialize leak))) p k)"
    if "k \<in> fst ` set (tr_biggestList (traverse config serialize leak))" for k
  proof -
    from that obtain e where "map_of (tr_biggestList (traverse config serialize leak)) k = Some e"
      by (metis weak_map_of_SomeI imageE prod.collapse)
    with traverse_biggest_inv [of config serialize leak] show ?thesis
      unfolding biggest_inv_def by blast
  qed
  from visit_child_recorded [of child config serialize rootDistance distanceDisplay nodeDetail st]
    visit_child_small [of st nodeDetail _ config serialize child rootDistance distanceDisplay]
    keys leak_graph_untouched [of _ config serialize leak]
  show ?thesis by blast
qed

text \<open>
  In the example the child 6 is a hundredth of its parent 5, so its visit records
  nothing; only the leak point is recorded, and node 6 of the returned graph is not
  pre-expanded.
\<close>

theorem biggest_retainers_witness:
  "map_of [(5, \<lparr>be_id = ''@5'', be_source = None, be_sourceId = None, be_distance = None,
                be_retainedSize = 100\<rparr>)] (nd_index (ex_serialize 5))
     = Some \<lparr>be_id = ''@5'', be_source = None, be_sourceId = None, be_distance = None,
             be_retainedSize = 100\<rparr> \<and>
   0 < node_limit ex_config \<and>
   nd_retainedSize (ex_serialize 6) * node_limit ex_config \<le> 100 \<and>
   tr_biggestList (visit_child ex_config ex_serialize 0 1 (ex_serialize 5)
       \<lparr>tr_nodes = [], tr_links = [],
        tr_biggestList = [(5, \<lparr>be_id = ''@5'', be_source = None, be_sourceId = None,
                              be_distance = None, be_retainedSize = 100\<rparr>)],
        tr_isRecorded = {}, tr_tmpIndexArr = []\<rparr>
       \<lparr>c_index = 6, c_name_or_index = ''a''\<rparr>)
     = [(5, \<lparr>be_id = ''@5'', be_source = None, be_sourceId = None, be_distance = None,
             be_retainedSize = 100\<rparr>)] \<and>
   fst ` set (tr_biggestList (traverse ex_config ex_serialize ex_leak)) = {5} \<and>
   lp_index ex_leak = 5 \<and>
   fg_nodes (leak_graph ex_config ex_serialize ex_leak) ! 1 \<in>
     set (fg_nodes (leak_graph ex_config ex_serialize ex_leak)) \<and>
   gn_index (fg_nodes (leak_graph ex_config ex_serialize ex_leak) ! 1) = 6 \<and>
   gn_flag (fg_nodes (leak_graph ex_config ex_serialize ex_leak) ! 1) \<and>
   gn_category (fg_nodes (leak_graph ex_config ex_serialize ex_leak) ! 1) = 1"
proof -
  define seed where "seed = \<lparr>be_id = ''@5'', be_source = None, be_sourceId = None,
      be_distance = None, be_retainedSize = 100\<rparr>"
  define st where "st = \<lparr>tr_nodes = [], tr_links = [], tr_biggestList = [(5, seed)],
      tr_isRecorded = {}, tr_tmpIndexArr = []\<rparr>"
  define child where "child = \<lparr>c_index = 6, c_name_or_index = ''a''\<rparr>"
  have h1: "map_of (tr_biggestList st) (nd_index (ex_serialize 5)) = Some seed"
    by (simp add: st_def ex_serialize_def)
  have h2: "0 < node_limit ex_config" by (simp add: ex_config_def)
  have h3: "0 < be_retainedSize seed" by (simp add: seed_def)
  have h4: "nd_retainedSize (ex_serialize (c_index child)) * node_limit ex_config
      \<le> be_retainedSize seed"
    by (simp add: seed_def child_def ex_serialize_def ex_config_def)
  note br = biggest_retainers [of child ex_config ex_serialize 0 1 "ex_serialize 5" st ex_leak]
  from br h1 h2 h3 h4
  have step: "tr_biggestList (visit_child ex_config ex_serialize 0 1 (ex_serialize 5) st child)
      = tr_biggestList st"
    by blast
  have keys: "fst ` set (tr_biggestList (traverse ex_config ex_serialize ex_leak)) = {5}"
    by (simp add: ex_traverse)
  have n: "fg_nodes (leak_graph ex_config ex_serialize ex_leak) ! 1 \<in>
      set (fg_nodes (leak_graph ex_config ex_serialize ex_leak))"
    and i: "gn_index (fg_nodes (leak_graph ex_config ex_serialize ex_leak) ! 1) = 6"
    by (simp_all add: ex_leak_graph ex_graph_def)
  from i keys have "gn_index (fg_nodes (leak_graph ex_config ex_serialize ex_leak) ! 1)
      \<notin> fst ` set (tr_biggestList (traverse ex_config ex_serialize ex_leak))"
    by simp
  with br n have fl: "gn_flag (fg_nodes (leak_graph ex_config ex_serialize ex_leak) ! 1) \<and>
      gn_category (fg_nodes (leak_graph ex_config ex_serialize ex_leak) ! 1) = 1"
    by blast
  have l: "lp_index ex_leak = 5" by (simp add: ex_leak_def)
  from h1 h2 h4 step keys l n i fl show ?thesis
    unfolding st_def seed_def child_def by simp
qed

text \<open>
  C5 as stated fails: in the example the child 7 is visited from its parent 6 (the link
  is pushed), it is within \<open>leak_limit\<close> of the root and as large as its parent, and it is
  not recorded, because its parent is not.
\<close>

theorem biggest_retainers_counterexample:
  "gl_sourceIndex (tr_links (traverse ex_config ex_serialize ex_leak) ! 1) = 6 \<and>
   gl_targetIndex (tr_links (traverse ex_config ex_serialize ex_leak) ! 1) = 7 \<and>
   \<bar>nd_distance (ex_serialize (lp_index ex_leak)) - nd_distance (ex_serialize 7)\<bar>
     < leak_limit ex_config \<and>
   js_gt (js_div (nd_retainedSize (ex_serialize 7)) (nd_retainedSize (ex_serialize 6)))
         (js_div 1 (node_limit ex_config)) \<and>
   map_of (tr_biggestList (traverse ex_config ex_serialize ex_leak)) 7 = None"
  unfolding ex_traverse
  by (simp add: ex_serialize_def ex_config_def ex_leak_def js_div_def)

section \<open>The order of the links of a built graph\<close>

text \<open>
  The traversal pushes the links hop by hop, so when an id has one distance in the
  snapshot the links of a built graph are ordered: the one-pass collapse of
  \<^verbatim>\<open>setExpandOff\<close> then reaches every descendant.
\<close>

lemma links_ordered_snoc:
  "links_ordered (ls @ [m]) \<longleftrightarrow>
     links_ordered ls \<and> gl_target m \<notin> gl_source ` set ls \<and> gl_target m \<noteq> gl_source m"
  by (induction ls) (auto simp: list_all_iff)

lemma links_below_mono:
  "links_below serialize d links \<Longrightarrow> d \<le> d' \<Longrightarrow> links_below serialize d' links"
  unfolding links_below_def by (meson order_trans)

lemma links_below_snoc:
  assumes one: "\<forall>i j. nd_id (serialize i) = nd_id (serialize j) \<longrightarrow>
                  nd_distance (serialize i) = nd_distance (serialize j)"
    and below: "links_below serialize (nd_distance (serialize p)) links"
    and dist: "nd_distance (serialize c) = 1 + nd_distance (serialize p)"
    and src: "gl_source m = nd_id (serialize p)" and tgt: "gl_target m = nd_id (serialize c)"
  shows "links_below serialize (nd_distance (serialize p)) (links @ [m])"
proof -
  have self: "gl_target m \<noteq> gl_source m"
  proof
    assume "gl_target m = gl_source m"
    with src tgt have "nd_id (serialize c) = nd_id (serialize p)" by simp
    with one have "nd_distance (serialize c) = nd_distance (serialize p)" by blast
    with dist show False by simp
  qed
  have fresh: "gl_target m \<notin> gl_source ` set links"
  proof
    assume "gl_target m \<in> gl_source ` set links"
    then obtain l where l: "l \<in> set links" and eq: "gl_source l = gl_target m" by auto
    from below l obtain q where q: "gl_source l = nd_id (serialize q)"
      "nd_distance (serialize q) \<le> nd_distance (serialize p)"
      unfolding links_below_def by blast
    from q(1) eq tgt have "nd_id (serialize c) = nd_id (serialize q)" by simp
    with one have "nd_distance (serialize c) = nd_distance (serialize q)" by blast
    with q(2) dist show False by simp
  qed
  from below self fresh have "links_ordered (links @ [m])"
    unfolding links_below_def links_ordered_snoc by simp
  moreover from src tgt dist have
    "\<exists>p' c'. gl_source m = nd_id (serialize p') \<and> gl_target m = nd_id (serialize c') \<and>
        nd_distance (serialize c') = 1 + nd_distance (serialize p') \<and>
        nd_distance (serialize p') \<le> nd_distance (serialize p)"
    by (intro exI [of _ p] exI [of _ c]) simp
  ultimately show ?thesis
    using below unfolding links_below_def by auto
qed

lemma visit_child_links:
  "tr_links (visit_child config serialize rootDistance distanceDisplay nodeDetail st child)
     = tr_links st \<or>
   tr_links (visit_child config serialize rootDistance distanceDisplay nodeDetail st child)
     = tr_links st @
       [\<lparr>gl_source = nd_id nodeDetail, gl_target = nd_id (serialize (c_index child)),
         gl_sourceIndex = nd_index nodeDetail,
         gl_targetIndex = nd_index (serialize (c_index child)),
         gl_name_or_index = c_name_or_index child\<rparr>]"
  by (simp add: visit_child_def Let_def)

lemma visit_child_tmp:
  "set (tr_tmpIndexArr (visit_child config serialize rootDistance distanceDisplay nodeDetail st child))
     \<subseteq> insert (c_index child) (set (tr_tmpIndexArr st))"
  by (auto simp: visit_child_def Let_def)

lemma visit_child_hop_inv:
  assumes one: "\<forall>i j. nd_id (serialize i) = nd_id (serialize j) \<longrightarrow>
                  nd_distance (serialize i) = nd_distance (serialize j)"
    and inv: "hop_inv serialize (nd_distance (serialize p)) st"
    and dist: "nd_distance (serialize (c_index child)) = 1 + nd_distance (serialize p)"
  shows "hop_inv serialize (nd_distance (serialize p))
           (visit_child config serialize rootDistance distanceDisplay (serialize p) st child)"
proof -
  from inv have below: "links_below serialize (nd_distance (serialize p)) (tr_links st)"
    and tmp: "\<forall>i\<in>set (tr_tmpIndexArr st). nd_distance (serialize i) = 1 + nd_distance (serialize p)"
    unfolding hop_inv_def by blast+
  have "links_below serialize (nd_distance (serialize p))
      (tr_links (visit_child config serialize rootDistance distanceDisplay (serialize p) st child))"
    using visit_child_links [of config serialize rootDistance distanceDisplay "serialize p" st child]
      below links_below_snoc [OF one below dist]
    by auto
  moreover have "\<forall>i\<in>set (tr_tmpIndexArr
        (visit_child config serialize rootDistance distanceDisplay (serialize p) st child)).
      nd_distance (serialize i) = 1 + nd_distance (serialize p)"
    using visit_child_tmp [of config serialize rootDistance distanceDisplay "serialize p" st child]
      tmp dist
    by auto
  ultimately show ?thesis unfolding hop_inv_def by blast
qed

lemma visit_parent_hop_inv:
  assumes one: "\<forall>i j. nd_id (serialize i) = nd_id (serialize j) \<longrightarrow>
                  nd_distance (serialize i) = nd_distance (serialize j)"
    and inv: "hop_inv serialize d st"
    and level: "nd_distance (serialize index) = d"
  shows "hop_inv serialize d
           (visit_parent config serialize leak rootDistance distanceDisplay st index)"
proof (cases "nd_id (serialize index) \<in> tr_isRecorded st")
  case True
  with inv show ?thesis by (simp add: visit_parent_def Let_def)
next
  case False
  define st1 where "st1 = st\<lparr>tr_isRecorded := insert (nd_id (serialize index)) (tr_isRecorded st),
      tr_nodes := tr_nodes st @
        [\<lparr>gn_index = nd_index (serialize index), gn_name = nd_id (serialize index),
          gn_isMain = Some (lp_index leak = nd_index (serialize index)),
          gn_id = nd_id (serialize index),
          gn_size = (if lp_index leak = nd_index (serialize index) then 40 else 30),
          gn_category = (if lp_index leak = nd_index (serialize index) then 0 else 1),
          gn_ignore = (\<not> lp_index leak = nd_index (serialize index)), gn_flag = True,
          gn_label = None, gn_symbolSize = None\<rparr>]\<rparr>"
  from inv level have inv1: "hop_inv serialize (nd_distance (serialize index)) st1"
    unfolding hop_inv_def st1_def by simp
  have "hop_inv serialize (nd_distance (serialize index))
      (foldl (visit_child config serialize rootDistance distanceDisplay (serialize index)) st1
         (filter (\<lambda>item. nd_distance (serialize (c_index item)) = 1 + nd_distance (serialize index))
            (nd_children (serialize index))))"
    using inv1
    by (rule foldl_invariant [where P = "hop_inv serialize (nd_distance (serialize index))"])
       (simp add: visit_child_hop_inv [OF one])
  then show ?thesis
    unfolding visit_parent_fresh [where serialize = serialize and index = index and st = st, OF False]
      st1_def level .
qed

lemma bfs_while_links_ordered:
  assumes one: "\<forall>i j. nd_id (serialize i) = nd_id (serialize j) \<longrightarrow>
                  nd_distance (serialize i) = nd_distance (serialize j)"
  shows "links_below serialize d (tr_links st) \<Longrightarrow>
         \<forall>i\<in>set leakIndexList. nd_distance (serialize i) = d \<Longrightarrow>
         links_ordered
           (tr_links (bfs_while config serialize leak rootDistance leakIndexList distanceDisplay st))"
  using one
proof (induction config serialize leak rootDistance leakIndexList distanceDisplay st
    arbitrary: d rule: bfs_while.induct)
  case (1 config serialize leak rootDistance leakIndexList distanceDisplay st)
  show ?case
  proof (cases "leakIndexList \<noteq> [] \<and> distanceDisplay \<le> distance_limit config")
    case True
    define st' where "st' = foldl (visit_parent config serialize leak rootDistance distanceDisplay)
        (st\<lparr>tr_tmpIndexArr := []\<rparr>) leakIndexList"
    from "1.prems"(1) have "hop_inv serialize d (st\<lparr>tr_tmpIndexArr := []\<rparr>)"
      by (simp add: hop_inv_def)
    then have "hop_inv serialize d st'"
      unfolding st'_def
    proof (rule foldl_invariant [where P = "hop_inv serialize d"])
      fix s x assume "x \<in> set leakIndexList" and s: "hop_inv serialize d s"
      with "1.prems"(2) have "nd_distance (serialize x) = d" by blast
      with s show "hop_inv serialize d
          (visit_parent config serialize leak rootDistance distanceDisplay s x)"
        by (rule visit_parent_hop_inv [OF "1.prems"(3)])
    qed
    then have "links_below serialize (1 + d) (tr_links st')"
      and "\<forall>i\<in>set (tr_tmpIndexArr st'). nd_distance (serialize i) = 1 + d"
      unfolding hop_inv_def by (auto intro: links_below_mono)
    with "1.IH" [OF True st'_def _ _ "1.prems"(3)] have
      "links_ordered (tr_links
         (bfs_while config serialize leak rootDistance (tr_tmpIndexArr st') (distanceDisplay + 1) st'))"
      by blast
    with True show ?thesis
      by (simp add: bfs_while_step st'_def)
  next
    case False
    then have "leakIndexList = [] \<or> distance_limit config < distanceDisplay" by auto
    with "1.prems"(1) show ?thesis by (simp add: bfs_while_done links_below_def)
  qed
qed

lemma built_links_ordered:
  assumes "\<forall>i j. nd_id (serialize i) = nd_id (serialize j) \<longrightarrow>
             nd_distance (serialize i) = nd_distance (serialize j)"
  shows "links_ordered (fg_links (leak_graph config serialize leak))"
  unfolding leak_graph_identity traverse_def
  by (rule bfs_while_links_ordered [OF assms, where d = "nd_distance (serialize (lp_index leak))"])
     (simp_all add: links_below_def)

end
